theory Spec2Isabelle
  imports Main "HOL-Library.Multiset"
begin

section \<open>Python values shared by the two modules\<close>

text \<open>
  Exceptions are values. The constructors are the classes the two source files name in
  their \<open>except\<close> clauses or raise themselves, the built-in errors of attribute, index and
  key access, one constructor for every other subclass of \<open>Exception\<close>, and two for
  exceptions outside \<open>Exception\<close> (\<open>asyncio.CancelledError\<close> and the rest of
  \<open>BaseException\<close>), which \<open>except Exception\<close> does not catch.
\<close>

datatype exn =
    SSLError
  | ConnectionError
  | LocationParseError
  | ReadTimeout
  | PageError
  | NetworkError
  | ParserRejectedMarkup
  | AssertionError
  | AttributeError
  | TypeError
  | IndexError
  | KeyError
  | ZeroDivisionError
  | ValueError string
  | OtherException
  | CancelledError
  | OtherBaseException

text \<open>
  A \<open>str\<close> is a list of characters; a HOL character stands for a code point below 256.
  The string methods the source calls, with Python's meaning.
\<close>

definition startswith :: "string \<Rightarrow> string \<Rightarrow> bool" where
  "startswith s p = (take (length p) s = p)"

definition endswith :: "string \<Rightarrow> string \<Rightarrow> bool" where
  "endswith s p = (length p \<le> length s \<and> drop (length s - length p) s = p)"

definition removesuffix :: "string \<Rightarrow> string \<Rightarrow> string" where
  "removesuffix s p = (if p \<noteq> [] \<and> endswith s p then take (length s - length p) s else s)"

text \<open>\<open>py_in sub s\<close> is Python's \<open>sub in s\<close> on strings: \<open>sub\<close> occurs in \<open>s\<close>.\<close>

fun py_in :: "string \<Rightarrow> string \<Rightarrow> bool" where
  "py_in sub [] = (sub = [])"
| "py_in sub (c # cs) = (startswith (c # cs) sub \<or> py_in sub cs)"

text \<open>
  \<open>str.isspace\<close> on the code points below 256, and \<open>str.split()\<close> with no argument:
  the maximal runs of characters that are not whitespace. The second argument of
  \<open>split_acc\<close> is the word being read.
\<close>

definition isspace :: "char \<Rightarrow> bool" where
  "isspace c = (of_char c \<in> {9, 10, 11, 12, 13, 28, 29, 30, 31, 32, 133, 160 :: nat})"

fun split_acc :: "string \<Rightarrow> string \<Rightarrow> string list" where
  "split_acc [] w = (if w = [] then [] else [w])"
| "split_acc (c # cs) w =
     (if isspace c then (if w = [] then split_acc cs [] else w # split_acc cs [])
      else split_acc cs (w @ [c]))"

definition split :: "string \<Rightarrow> string list" where
  "split s = split_acc s []"

fun join :: "string \<Rightarrow> string list \<Rightarrow> string" where
  "join sep [] = []"
| "join sep [w] = w"
| "join sep (w # v # ws) = w @ sep @ join sep (v # ws)"

definition strip :: "string \<Rightarrow> string" where
  "strip s = rev (dropWhile isspace (rev (dropWhile isspace s)))"

definition remove_excess_whitespace :: "string \<Rightarrow> string" where
  "remove_excess_whitespace s = strip (join '' '' (split s))"


section \<open>html\_tag\_collector/collector.py: responses and the response filter\<close>

text \<open>
  Two classes of response objects reach the collector. \<open>session.get\<close> of an
  \<open>AsyncHTMLSession\<close> yields an \<open>HTMLResponse\<close>: a status code, the body as bytes, the
  headers (keys in lower case; the library's dictionary is case-insensitive) and the
  page's markup \<open>html.html\<close>. \<open>response_valid\<close> builds the other one,
  \<open>requests.Response()\<close> with \<open>status_code\<close> assigned afterwards: that object has no
  body (its \<open>content\<close> is \<open>None\<close>), no header and no \<open>html\<close> attribute.
\<close>

record html_response =
  status_code :: int
  content :: string
  headers :: "(string \<times> string) list"
  html :: string

datatype response = HTMLResponse html_response | Response int

fun status_code_of :: "response \<Rightarrow> int" where
  "status_code_of (HTMLResponse r) = status_code r"
| "status_code_of (Response sc) = sc"

fun content_of :: "response \<Rightarrow> string option" where
  "content_of (HTMLResponse r) = Some (content r)"
| "content_of (Response sc) = None"

fun headers_of :: "response \<Rightarrow> (string \<times> string) list" where
  "headers_of (HTMLResponse r) = headers r"
| "headers_of (Response sc) = []"

fun html_of :: "response \<Rightarrow> string option" where
  "html_of (HTMLResponse r) = Some (html r)"
| "html_of (Response sc) = None"

text \<open>
  \<open>response.ok\<close> is the library's property: false exactly for the client and server
  error codes, \<open>400 \<le> status_code < 600\<close>.
\<close>

definition ok :: "response \<Rightarrow> bool" where
  "ok r = (\<not> (400 \<le> status_code_of r \<and> status_code_of r < 600))"

definition filtered_types :: "string list" where
  "filtered_types =
     [''pdf'', ''excel'', ''msword'', ''image'', ''rtf'', ''zip'', ''octet'', ''csv'', ''json'']"

text \<open>
  The second disjunct of the test of \<open>response_valid\<close>:
  \<open>content_type is not None and any(t in content_type for t in [...])\<close>.
\<close>

definition unreadable :: "string option \<Rightarrow> bool" where
  "unreadable content_type =
     (case content_type of None \<Rightarrow> False
      | Some ct \<Rightarrow> list_ex (\<lambda>filtered_type. py_in filtered_type ct) filtered_types)"

text \<open>
  The test of \<open>response_valid\<close>, evaluated left to right as Python does:
  \<open>len(response.content)\<close> is the first thing computed on a response that is not
  \<open>None\<close>, and \<open>len(None)\<close> raises \<open>TypeError\<close>.
\<close>

definition discard_test :: "response option \<Rightarrow> string option \<Rightarrow> exn + bool" where
  "discard_test response content_type =
     (case response of
        None \<Rightarrow> Inr (unreadable content_type)
      | Some r \<Rightarrow>
          (case content_of r of
             None \<Rightarrow> Inl TypeError
           | Some body \<Rightarrow>
               Inr (10000000 < length body \<or> unreadable content_type \<or> \<not> ok r)))"

text \<open>
  \<open>response_valid\<close>. \<open>DEBUG\<close> is \<open>False\<close> in the module, so the print is left out. In
  the discarding branch \<open>response.status_code\<close> is read without a test for \<open>None\<close>.
\<close>

definition response_valid ::
  "response option \<Rightarrow> string option \<Rightarrow> string option \<Rightarrow> exn + response option" where
  "response_valid response content_type url =
     (case discard_test response content_type of
        Inl e \<Rightarrow> Inl e
      | Inr True \<Rightarrow>
          (case response of
             None \<Rightarrow> Inl AttributeError
           | Some r \<Rightarrow> Inr (Some (Response (status_code_of r))))
      | Inr False \<Rightarrow> Inr response)"


section \<open>collector.py: the fetch engine\<close>

text \<open>
  \<open>get_response\<close> returns the dictionary \<open>{"index": index, "response": response}\<close>, and
  \<open>process_urls\<close> adds the entry \<open>"url"\<close> to it. The fields \<open>d_index\<close>, \<open>d_response\<close>
  and \<open>d_url\<close> are these entries. The url of a row of the input table is a string or
  \<open>None\<close>.
\<close>

record outcome =
  d_index :: nat
  d_response :: "response option"

record url_response = outcome +
  d_url :: "string option"

text \<open>
  \<open>session.get(url, headers=..., timeout=120, verify=...)\<close> is the network: a function of
  the url and of the \<open>verify\<close> flag that yields an \<open>HTMLResponse\<close> or raises.
  \<open>SSLError\<close> stands for both classes of the first \<open>except\<close> clause.
\<close>

type_synonym session = "string option \<Rightarrow> bool \<Rightarrow> exn + html_response"

text \<open>The classes that \<open>except Exception\<close> catches.\<close>

definition is_Exception :: "exn \<Rightarrow> bool" where
  "is_Exception e = (e \<noteq> CancelledError \<and> e \<noteq> OtherBaseException)"

text \<open>
  The \<open>try\<close> statement of \<open>get_response\<close> up to its \<open>finally\<close> clause. The result is the
  value of \<open>url\<close> and of \<open>response\<close> when the \<open>finally\<close> clause starts, and the exception
  that is in flight then, if any: one that no clause caught, or one raised inside a
  handler (by the retry, or by \<open>url[4]\<close> on a url of four characters or less, or on
  \<open>None\<close>).
\<close>

definition try_get ::
  "session \<Rightarrow> string option \<Rightarrow> string option \<times> html_response option \<times> exn option" where
  "try_get session url =
     (case session url True of
        Inr response \<Rightarrow> (url, Some response, None)
      | Inl e \<Rightarrow>
          if e = SSLError then
            (case session url False of
               Inr response \<Rightarrow> (url, Some response, None)
             | Inl e' \<Rightarrow> (url, None, Some e'))
          else if e = ConnectionError then
            (case url of
               None \<Rightarrow> (url, None, Some TypeError)
             | Some u \<Rightarrow>
                 if length u \<le> 4 then (url, None, Some IndexError)
                 else if u ! 4 \<noteq> CHR ''s'' then
                   (let url = Some (take 4 u @ ''s'' @ drop 4 u) in
                    case session url True of
                      Inr response \<Rightarrow> (url, Some response, None)
                    | Inl e' \<Rightarrow> (url, None, Some e'))
                 else (url, None, None))
          else if e = LocationParseError \<or> e = ReadTimeout then (url, None, None)
          else if is_Exception e then (url, None, None)
          else (url, None, Some e))"

text \<open>
  \<open>get_response\<close>. The \<open>finally\<close> clause reads the content type (a missing header and a
  missing response are caught there), calls \<open>response_valid\<close> and ends in \<open>return\<close>:
  a \<open>return\<close> in a \<open>finally\<close> clause discards the exception in flight. Only an
  exception raised by the \<open>finally\<close> clause itself leaves the function.
\<close>

definition get_response :: "session \<Rightarrow> string option \<Rightarrow> nat \<Rightarrow> exn + outcome" where
  "get_response session url index =
     (let url = map_option (\<lambda>u. removesuffix u ''.json'') url;
          (url, response, in_flight) = try_get session url;
          content_type =
            (case response of
               None \<Rightarrow> None
             | Some r \<Rightarrow> map_of (headers r) ''content-type'')
      in case response_valid (map_option HTMLResponse response) content_type url of
           Inl e \<Rightarrow> Inl e
         | Inr response \<Rightarrow> Inr \<lparr>d_index = index, d_response = response\<rparr>)"

text \<open>
  A loop or comprehension whose body may raise: the list of the values, or the first
  exception, which ends the loop. Awaiting the gathered tasks is such a loop: the list
  of their results, or the exception of a task that raised.
\<close>

fun try_map :: "('a \<Rightarrow> exn + 'b) \<Rightarrow> 'a list \<Rightarrow> exn + 'b list" where
  "try_map f [] = Inr []"
| "try_map f (x # xs) =
     (case f x of
        Inl e \<Rightarrow> Inl e
      | Inr y \<Rightarrow> (case try_map f xs of Inl e \<Rightarrow> Inl e | Inr ys \<Rightarrow> Inr (y # ys)))"

text \<open>
  \<open>run_get_response\<close> starts one task per url, numbered by \<open>enumerate\<close>, and awaits
  \<open>tqdm.gather\<close>. The order in which the results are listed is left to the parameter
  \<open>gather_order\<close>, a rearrangement of the list of results.
\<close>

definition run_get_response ::
  "(outcome list \<Rightarrow> outcome list) \<Rightarrow> session \<Rightarrow> string option list \<Rightarrow> exn + outcome list" where
  "run_get_response gather_order session urls =
     (case try_map (\<lambda>(i, url). get_response session url i) (enumerate 0 urls) of
        Inl e \<Rightarrow> Inl e
      | Inr results \<Rightarrow> Inr (gather_order results))"

section \<open>collector.py: the render stage\<close>

text \<open>
  \<open>res.html.arender()\<close> started as a task. Time is counted in polls of the loop, one
  \<open>asyncio.sleep(0.1)\<close> each: a task is done after some number of polls, with the
  rendered markup or with an exception, or it is never done.
\<close>

datatype render_task = Done_after nat "exn + string" | Never

text \<open>\<open>task.done()\<close> after \<open>t\<close> polls, with the outcome of the task when it is done.\<close>

fun task_done :: "render_task \<Rightarrow> nat \<Rightarrow> (exn + string) option" where
  "task_done (Done_after n out) t = (if n \<le> t then Some out else None)"
| "task_done Never t = None"

text \<open>
  The polling loop of \<open>render_js\<close> followed by \<open>await task\<close>. The result is the final
  value of \<open>time_elapsed\<close> and what \<open>await task\<close> yields: the outcome of a task that is
  done, \<open>CancelledError\<close> for a task that the loop has cancelled. \<open>task.cancel()\<close> does
  nothing to a task that finished during the last sleep.
\<close>

function poll :: "render_task \<Rightarrow> nat \<Rightarrow> nat \<times> (exn + string)" where
  "poll task time_elapsed =
     (case task_done task time_elapsed of
        Some out \<Rightarrow> (time_elapsed, out)
      | None \<Rightarrow>
          (let time_elapsed = time_elapsed + 1 in
           if time_elapsed > 150 then
             (time_elapsed,
              case task_done task time_elapsed of
                Some out \<Rightarrow> out
              | None \<Rightarrow> Inl CancelledError)
           else poll task time_elapsed))"
  by pat_completeness auto
termination
  by (relation "measure (\<lambda>(task, time_elapsed). 151 - time_elapsed)") auto

declare poll.simps [simp del]

text \<open>
  One round of the loop of \<open>render_js\<close>. A response that is missing or not \<open>ok\<close> is
  skipped; a bare \<open>Response\<close> has no \<open>html\<close> attribute, which raises the
  \<open>AttributeError\<close> that the loop catches. A task that finishes stores the rendered
  markup in the response. The three \<open>except\<close> clauses after \<open>await task\<close> swallow the
  rendering errors, every \<open>Exception\<close> and \<open>CancelledError\<close>.
\<close>

definition render_one :: "(html_response \<Rightarrow> render_task) \<Rightarrow> url_response \<Rightarrow> exn + url_response" where
  "render_one arender url_response =
     (case d_response url_response of
        None \<Rightarrow> Inr url_response
      | Some res \<Rightarrow>
          if \<not> ok res then Inr url_response
          else
            (case res of
               Response sc \<Rightarrow> Inr url_response
             | HTMLResponse r \<Rightarrow>
                 (case snd (poll (arender r) 0) of
                    Inr rendered \<Rightarrow>
                      Inr (url_response\<lparr>d_response := Some (HTMLResponse (r\<lparr>html := rendered\<rparr>))\<rparr>)
                  | Inl e \<Rightarrow>
                      if e = PageError \<or> e = NetworkError then Inr url_response
                      else if is_Exception e then Inr url_response
                      else if e = CancelledError then Inr url_response
                      else Inl e)))"

text \<open>\<open>render_js\<close>: the rounds in the order of the list; an exception ends the loop.\<close>

definition render_js ::
  "(html_response \<Rightarrow> render_task) \<Rightarrow> url_response list \<Rightarrow> exn + url_response list" where
  "render_js arender urls_responses = try_map (render_one arender) urls_responses"

section \<open>collector.py: the url of a record\<close>

text \<open>
  \<open>urllib.parse.urlparse(url).path\<close>, after the library's \<open>urlsplit\<close>: leading control
  characters and spaces are stripped and tabs and line breaks removed; a scheme is split
  off at the first colon when what stands before it starts with an ASCII letter and
  consists of scheme characters; after \<open>//\<close> the host part runs to the first of
  \<open>/?#\<close>, and a bracket without its partner there raises \<open>ValueError\<close>; the fragment and
  the query are cut at the first \<open>#\<close> and \<open>?\<close>; for the schemes that take parameters
  (the empty scheme, \<open>http\<close> and \<open>https\<close> among them) the parameters of the last path
  segment are cut at its first semicolon. The validation that newer interpreters apply
  to a host written in matching brackets is not modelled.
\<close>

definition c0_control_or_space :: "char \<Rightarrow> bool" where
  "c0_control_or_space c = ((of_char c :: nat) \<le> 32)"

definition unsafe_url_byte :: "char \<Rightarrow> bool" where
  "unsafe_url_byte c = (of_char c \<in> {9, 10, 13 :: nat})"

definition isascii_isalpha :: "char \<Rightarrow> bool" where
  "isascii_isalpha c =
     (let n = of_char c :: nat in (65 \<le> n \<and> n \<le> 90) \<or> (97 \<le> n \<and> n \<le> 122))"

definition scheme_char :: "char \<Rightarrow> bool" where
  "scheme_char c =
     (let n = of_char c :: nat
      in isascii_isalpha c \<or> (48 \<le> n \<and> n \<le> 57) \<or> c \<in> set ''+-.'')"

definition lower :: "char \<Rightarrow> char" where
  "lower c =
     (let n = of_char c :: nat in if 65 \<le> n \<and> n \<le> 90 then char_of (n + 32) else c)"

definition uses_params :: "string list" where
  "uses_params =
     ['''', ''ftp'', ''hdl'', ''prospero'', ''http'', ''imap'', ''https'', ''shttp'', ''rtsp'',
      ''rtsps'', ''rtspu'', ''sip'', ''sips'', ''mms'', ''sftp'', ''tel'']"

text \<open>The scheme, in lower case, and the rest of the url; no scheme is the empty string.\<close>

definition split_scheme :: "string \<Rightarrow> string \<times> string" where
  "split_scheme url =
     (let head = takeWhile (\<lambda>c. c \<noteq> CHR '':'') url
      in if length head < length url \<and> head \<noteq> [] \<and> isascii_isalpha (hd head)
            \<and> list_all scheme_char head
         then (map lower head, drop (length head + 1) url)
         else ([], url))"

text \<open>\<open>_splitnetloc(url, 2)\<close> when the url starts with \<open>//\<close>.\<close>

definition split_netloc :: "string \<Rightarrow> string \<times> string" where
  "split_netloc url =
     (if take 2 url = ''//''
      then (takeWhile (\<lambda>c. c \<notin> set ''/?#'') (drop 2 url),
            dropWhile (\<lambda>c. c \<notin> set ''/?#'') (drop 2 url))
      else ([], url))"

text \<open>\<open>_splitparams(url)[0]\<close>: the semicolon is looked for from the last slash on.\<close>

definition splitparams :: "string \<Rightarrow> string" where
  "splitparams url =
     (let segment = rev (takeWhile (\<lambda>c. c \<noteq> CHR ''/'') (rev url))
      in take (length url - length segment) url @ takeWhile (\<lambda>c. c \<noteq> CHR '';'') segment)"

definition urlparse_path :: "string \<Rightarrow> exn + string" where
  "urlparse_path url =
     (let url = filter (\<lambda>c. \<not> unsafe_url_byte c) (dropWhile c0_control_or_space url);
          (scheme, url) = split_scheme url;
          (netloc, url) = split_netloc url
      in if (CHR ''['' \<in> set netloc \<and> CHR '']'' \<notin> set netloc)
            \<or> (CHR '']'' \<in> set netloc \<and> CHR ''['' \<notin> set netloc)
         then Inl (ValueError ''Invalid IPv6 URL'')
         else
           (let url = takeWhile (\<lambda>c. c \<noteq> CHR ''#'') url;
                url = takeWhile (\<lambda>c. c \<noteq> CHR ''?'') url
            in if scheme \<in> set uses_params \<and> CHR '';'' \<in> set url
               then Inr (splitparams url) else Inr url))"

text \<open>
  \<open>get_url\<close>. The url is the one of the input row, not the one that was fetched:
  \<open>https://\<close> is put in front of it when it does not start with \<open>http\<close>, and nothing is
  removed at its end. \<open>startswith\<close> on a url that is \<open>None\<close> raises \<open>AttributeError\<close>.
  \<open>path[1:]\<close> drops the first character of the path, and one slash at the end goes.
\<close>

definition get_url :: "url_response \<Rightarrow> exn + string \<times> string" where
  "get_url url_response =
     (case d_url url_response of
        None \<Rightarrow> Inl AttributeError
      | Some url \<Rightarrow>
          (let new_url = url;
               new_url = (if \<not> startswith new_url ''http'' then ''https://'' @ new_url
                          else new_url)
           in case urlparse_path new_url of
                Inl e \<Rightarrow> Inl e
              | Inr path \<Rightarrow>
                  (let url_path = drop 1 path;
                       url_path = (if url_path \<noteq> [] \<and> last url_path = CHR ''/''
                                   then butlast url_path else url_path)
                   in Inr (url, url_path))))"

section \<open>collector.py: the feature extractor\<close>

text \<open>
  What the extractor reads from a parsed page. \<open>title_string\<close> is \<open>soup.title.string\<close>,
  \<open>None\<close> when the page has no title or the title has no string. \<open>description_meta\<close>
  is the tag \<open>soup.find("meta", attrs={"name": "description"})\<close>: \<open>None\<close> when there is
  none, else its \<open>content\<close> attribute, itself \<open>None\<close> when missing.
  \<open>header_elements tag\<close> lists the elements \<open>soup.find_all(tag)\<close> in document order,
  each with its \<open>get_text(" ", strip=True)\<close> and whether it contains a link
  (\<open>header.a\<close>). \<open>div_elements\<close> lists \<open>get_text(" ", strip=True)\<close> of the elements
  \<open>soup.find_all("div")\<close> in document order.
\<close>

record soup =
  title_string :: "string option"
  description_meta :: "string option option"
  header_elements :: "string \<Rightarrow> (string \<times> bool) list"
  div_elements :: "string list"

text \<open>
  Modelled from the spec: the title cache \<open>RootURLCache\<close>, which is not among the
  source files; \<open>get_title\<close> yields the title of the root page of a url, a string,
  best effort. The other fields are what the module takes from its libraries and from
  the world: the network (\<open>session.get\<close>), the order in which \<open>tqdm.gather\<close> lists the
  results, the renderer, the parser (\<open>BeautifulSoup(markup, parser)\<close>, which yields a
  page or raises) and \<open>json.dumps(..., ensure_ascii=False)\<close> on a list of strings.
\<close>

record env =
  session_get :: session
  gather :: "outcome list \<Rightarrow> outcome list"
  arender_task :: "html_response \<Rightarrow> render_task"
  get_title :: "string \<Rightarrow> string"
  BeautifulSoup :: "string \<Rightarrow> string \<Rightarrow> exn + soup"
  json_dumps :: "string list \<Rightarrow> string"

definition header_tags :: "string list" where
  "header_tags = [''h1'', ''h2'', ''h3'', ''h4'', ''h5'', ''h6'']"

definition MAX_WORDS :: nat where
  "MAX_WORDS = 500"

text \<open>\<open>verify_response\<close>: the pair \<open>(verified, http_response)\<close>.\<close>

definition verify_response :: "response option \<Rightarrow> bool \<times> int" where
  "verify_response res =
     (case res of
        None \<Rightarrow> (False, - 1)
      | Some r \<Rightarrow>
          (let http_response = status_code_of r
           in if \<not> ok r then (False, http_response) else (True, http_response)))"

text \<open>
  \<open>get_parser\<close>: the name of the parser, or \<open>None\<close> for the \<open>False\<close> that the source
  returns. Only \<open>KeyError\<close> is caught around \<open>res.headers["content-type"]\<close>.
\<close>

definition get_parser :: "response option \<Rightarrow> exn + string option" where
  "get_parser res =
     (case res of
        None \<Rightarrow> Inl AttributeError
      | Some r \<Rightarrow>
          (case map_of (headers_of r) ''content-type'' of
             None \<Rightarrow> Inr None
           | Some content_type \<Rightarrow>
               if py_in ''html'' content_type then Inr (Some ''lxml'')
               else if py_in ''xml'' content_type then Inr (Some ''lxml-xml'')
               else Inr None))"

definition get_html_title :: "soup \<Rightarrow> string" where
  "get_html_title soup =
     (case title_string soup of
        None \<Rightarrow> ''''
      | Some s \<Rightarrow> remove_excess_whitespace s)"

definition get_meta_description :: "soup \<Rightarrow> string" where
  "get_meta_description soup =
     (case description_meta soup of
        None \<Rightarrow> ''''
      | Some None \<Rightarrow> ''''
      | Some (Some c) \<Rightarrow> remove_excess_whitespace c)"

text \<open>The loop of \<open>get_div_text\<close> over the texts of the \<open>div\<close> elements, and the function.\<close>

fun div_loop :: "string \<Rightarrow> string list \<Rightarrow> string" where
  "div_loop div_text [] = div_text"
| "div_loop div_text (text # rest) =
     (if text \<noteq> [] then
        (if length (split div_text) + length (split text) \<le> MAX_WORDS
         then div_loop (div_text @ text @ '' '') rest
         else div_text)
      else div_loop div_text rest)"

definition get_div_text :: "soup \<Rightarrow> string" where
  "get_div_text soup = take (MAX_WORDS * 10) (div_loop [] (div_elements soup))"

text \<open>
  Modelled from the spec: the dataclass \<open>Tags\<close> of \<open>DataClassTags\<close>, which is not
  among the source files. The spec lists the fields of a record and their defaults, the
  empty string and \<open>-1\<close>; the attribute names are those \<open>parse_response\<close> assigns.
  \<open>process_urls\<close> pops \<open>index\<close> from every record before it builds the table:
  a \<open>row\<close> is a record without it.
\<close>

record row =
  url :: string
  url_path :: string
  html_title :: string
  meta_description :: string
  root_page_title :: string
  http_response :: int
  h1 :: string
  h2 :: string
  h3 :: string
  h4 :: string
  h5 :: string
  h6 :: string
  div_text :: string

record tags = row +
  index :: "nat option"

definition Tags :: tags where
  "Tags = \<lparr>url = '''', url_path = '''', html_title = '''', meta_description = '''',
      root_page_title = '''', http_response = - 1, h1 = '''', h2 = '''', h3 = '''', h4 = '''',
      h5 = '''', h6 = '''', div_text = '''', index = None\<rparr>"

text \<open>
  \<open>get_header_tags\<close>: for each of \<open>h1\<close> to \<open>h6\<close> the texts of the elements without a
  link, as a JSON array.
\<close>

definition header_content :: "env \<Rightarrow> soup \<Rightarrow> string \<Rightarrow> string" where
  "header_content env soup header_tag =
     json_dumps env (map fst (filter (\<lambda>(text, a). \<not> a) (header_elements soup header_tag)))"

definition get_header_tags :: "env \<Rightarrow> tags \<Rightarrow> soup \<Rightarrow> tags" where
  "get_header_tags env tags soup =
     tags\<lparr>h1 := header_content env soup ''h1'', h2 := header_content env soup ''h2'',
          h3 := header_content env soup ''h3'', h4 := header_content env soup ''h4'',
          h5 := header_content env soup ''h5'', h6 := header_content env soup ''h6''\<rparr>"

text \<open>
  \<open>parse_response\<close>. The exceptions caught around the parser are
  \<open>ParserRejectedMarkup\<close>, \<open>AssertionError\<close> and \<open>AttributeError\<close>, the last one also
  raised by \<open>res.html\<close> on a bare \<open>Response\<close>; nothing is caught around \<open>get_url\<close>.
\<close>

definition parse_response :: "env \<Rightarrow> url_response \<Rightarrow> exn + tags" where
  "parse_response env url_response =
     (let tags = Tags;
          res = d_response url_response;
          tags = tags\<lparr>index := Some (d_index url_response)\<rparr>
      in case get_url url_response of
           Inl e \<Rightarrow> Inl e
         | Inr located \<Rightarrow>
             (let tags = tags\<lparr>url := fst located, url_path := snd located\<rparr>;
                  tags = tags\<lparr>root_page_title :=
                           remove_excess_whitespace (get_title env (url tags))\<rparr>;
                  (verified, status) = verify_response res;
                  tags = tags\<lparr>http_response := status\<rparr>
              in if \<not> verified then Inr tags
                 else
                   (case get_parser res of
                      Inl e \<Rightarrow> Inl e
                    | Inr None \<Rightarrow> Inr tags
                    | Inr (Some parser) \<Rightarrow>
                        (case (case Option.bind res html_of of
                                 None \<Rightarrow> Inl AttributeError
                               | Some markup \<Rightarrow> BeautifulSoup env markup parser) of
                           Inl e \<Rightarrow>
                             if e = ParserRejectedMarkup \<or> e = AssertionError
                                \<or> e = AttributeError
                             then Inr tags else Inl e
                         | Inr soup \<Rightarrow>
                             (let tags = tags\<lparr>html_title := get_html_title soup\<rparr>;
                                  tags = tags\<lparr>meta_description := get_meta_description soup\<rparr>;
                                  tags = get_header_tags env tags soup;
                                  tags = tags\<lparr>div_text := get_div_text soup\<rparr>
                              in Inr tags)))))"

section \<open>collector.py: one batch, and the batches in sequence\<close>

text \<open>
  \<open>process_urls\<close> on the urls of the table it is given (a row of \<open>rows()\<close> is a tuple
  whose only element is the url, a string or \<open>None\<close>). The comprehension that builds
  \<open>urls_and_responses\<close> reads \<open>urls[i]\<close> at the position \<open>i\<close> of the sorted results.
  The result is the table of the rows, that is of the records without their \<open>index\<close>.
\<close>

definition process_urls :: "env \<Rightarrow> bool \<Rightarrow> string option list \<Rightarrow> exn + row list" where
  "process_urls env render_javascript urls =
     (let new_urls =
            map (\<lambda>u. case u of
                        None \<Rightarrow> None
                      | Some s \<Rightarrow> if \<not> startswith s ''http'' then Some (''https://'' @ s)
                                  else Some s) urls
      in case run_get_response (gather env) (session_get env) new_urls of
           Inl e \<Rightarrow> Inl e
         | Inr results \<Rightarrow>
             (let results = sort_key d_index results
              in case try_map
                        (\<lambda>(i, result).
                            if i < length urls
                            then Inr \<lparr>d_index = d_index result, d_response = d_response result,
                                      d_url = urls ! i\<rparr>
                            else Inl IndexError)
                        (enumerate 0 results) of
                   Inl e \<Rightarrow> Inl e
                 | Inr urls_and_responses \<Rightarrow>
                     (case (if render_javascript
                            then render_js (arender_task env) urls_and_responses
                            else Inr urls_and_responses) of
                        Inl e \<Rightarrow> Inl e
                      | Inr urls_and_responses \<Rightarrow>
                          (case try_map (parse_response env) urls_and_responses of
                             Inl e \<Rightarrow> Inl e
                           | Inr urls_and_headers \<Rightarrow>
                               Inr (map row.truncate urls_and_headers)))))"

text \<open>
  A table is the input table, of which only the column \<open>url\<close> is read, or a table of
  rows. \<open>pl.concat(how="vertical")\<close> needs tables of one schema; the input table and
  the table of rows are taken to differ in their columns.
\<close>

datatype frame = Urls "string option list" | Features "row list"

fun frame_urls :: "frame \<Rightarrow> string option list" where
  "frame_urls (Urls us) = us"
| "frame_urls (Features rs) = map (\<lambda>r. Some (url r)) rs"

fun len :: "frame \<Rightarrow> int" where
  "len (Urls us) = int (length us)"
| "len (Features rs) = int (length rs)"

text \<open>A slice \<open>xs[start:end]\<close>: a negative bound counts from the end.\<close>

definition slice :: "'a list \<Rightarrow> int \<Rightarrow> int \<Rightarrow> 'a list" where
  "slice xs start_idx end_idx =
     (let n = int (length xs);
          bound = (\<lambda>k. if k < 0 then max 0 (k + n) else min k n);
          s = nat (bound start_idx); e = nat (bound end_idx)
      in take (e - s) (drop s xs))"

fun frame_slice :: "frame \<Rightarrow> int \<Rightarrow> int \<Rightarrow> frame" where
  "frame_slice (Urls us) start_idx end_idx = Urls (slice us start_idx end_idx)"
| "frame_slice (Features rs) start_idx end_idx = Features (slice rs start_idx end_idx)"

fun concat_vertical :: "frame \<Rightarrow> frame \<Rightarrow> exn + frame" where
  "concat_vertical (Features a) (Features b) = Inr (Features (a @ b))"
| "concat_vertical (Urls a) (Urls b) = Inr (Urls (a @ b))"
| "concat_vertical a b = Inl OtherException"

text \<open>
  \<open>collector_main\<close> runs \<open>process_urls\<close> in a process of its own on a shared list that
  holds the table. An exception there ends that process only; the list then still holds
  the table it was given, and that is what \<open>collector_main\<close> returns.
\<close>

definition collector_main :: "env \<Rightarrow> frame \<Rightarrow> bool \<Rightarrow> frame" where
  "collector_main env df render_javascript =
     (case process_urls env render_javascript (frame_urls df) of
        Inl e \<Rightarrow> df
      | Inr table \<Rightarrow> Features table)"

text \<open>The loop of \<open>process_in_batches\<close> over the batch numbers, and the function.\<close>

fun batch_loop ::
  "env \<Rightarrow> frame \<Rightarrow> bool \<Rightarrow> int \<Rightarrow> int list \<Rightarrow> frame \<Rightarrow> exn + frame" where
  "batch_loop env df render_javascript batch_size [] cumulative_df = Inr cumulative_df"
| "batch_loop env df render_javascript batch_size (i # batches) cumulative_df =
     (let start_idx = i * batch_size;
          end_idx = min ((i + 1) * batch_size) (len df);
          batch_df = frame_slice df start_idx end_idx;
          header_tags_df = collector_main env batch_df render_javascript
      in if i = 0
         then batch_loop env df render_javascript batch_size batches header_tags_df
         else
           (case concat_vertical cumulative_df header_tags_df of
              Inl e \<Rightarrow> Inl e
            | Inr cumulative_df \<Rightarrow>
                batch_loop env df render_javascript batch_size batches cumulative_df))"

definition process_in_batches :: "env \<Rightarrow> frame \<Rightarrow> bool \<Rightarrow> int \<Rightarrow> exn + frame" where
  "process_in_batches env df render_javascript batch_size =
     (if batch_size = 0 then Inl ZeroDivisionError
      else
        (let num_batches = (len df + batch_size - 1) div batch_size
         in batch_loop env df render_javascript batch_size
              (map int [0..<nat num_batches]) (Features [])))"

section \<open>common\_crawler/crawler.py\<close>







text \<open>
  Modelled from the spec: the cache manager of \<open>common_crawler.cache\<close>, which is not
  among the source files. It keeps a pagination cursor for each triple of index, search
  term and keyword: \<open>cache_get\<close> yields the last page of the cursor and the cache after
  the call (or raises), \<open>set_last_page\<close> is the assignment
  \<open>cache_object.last_page = next_page\<close>, \<open>save_cache\<close> persists the cache. The state
  \<open>'c\<close> of the cache is left open. The other two fields are the world and a library:
  \<open>index_server\<close> is the request of \<open>search_common_crawl_index\<close> to the index of a
  crawl for a url and a page (the status code and the text of the answer, or an
  exception), and \<open>json_loads\<close> is \<open>json.loads\<close> on a line of the answer (a record,
  read as a dictionary of strings, or an exception).
\<close>

type_synonym cursor_key = "string \<times> string \<times> string"


text \<open>
  The state \<open>crawl\<close> acts on: the cache, and the calls made so far to the cache and to
  the index server, in order.
\<close>

datatype event = Cache_get cursor_key | Search string string int | Save_cache

record 'c world =
  cache :: 'c
  trace :: "event list"






section \<open>Notions used in the statements\<close>

text \<open>
  The response that \<open>get_response\<close> stores for a url. It does not depend on the index.
\<close>

definition fetched :: "session \<Rightarrow> string option \<Rightarrow> response option" where
  "fetched session u =
     (case get_response session u 0 of Inr r \<Rightarrow> d_response r | Inl e \<Rightarrow> None)"

text \<open>
  The texts \<open>ts\<close> as the loop appends them, each followed by a space, and the number of
  words in them.
\<close>

definition appended :: "string list \<Rightarrow> string" where
  "appended ts = concat (map (\<lambda>t. t @ '' '') ts)"

definition words_of :: "string list \<Rightarrow> nat" where
  "words_of ts = length (concat (map split ts))"

text \<open>A single slash at the end of a path removed, as the last statement of \<open>get_url\<close> does.\<close>

definition strip_slash :: "string \<Rightarrow> string" where
  "strip_slash p = (if p \<noteq> [] \<and> last p = CHR ''/'' then butlast p else p)"



text \<open>The url as \<open>process_urls\<close> hands it to the fetch.\<close>

definition new_url :: "string option \<Rightarrow> string option" where
  "new_url u =
     (case u of
        None \<Rightarrow> None
      | Some s \<Rightarrow> if \<not> startswith s ''http'' then Some (''https://'' @ s) else Some s)"

text \<open>
  What \<open>process_urls\<close> computes for the url at position \<open>i\<close> of a batch, taken alone:
  the outcome of the fetch with the url of the row, rendered when asked for, parsed, and
  the index dropped.
\<close>

definition fetched_url :: "env \<Rightarrow> nat \<Rightarrow> string option \<Rightarrow> url_response" where
  "fetched_url env i u =
     \<lparr>d_index = i, d_response = fetched (session_get env) (new_url u), d_url = u\<rparr>"

definition extract_row :: "env \<Rightarrow> bool \<Rightarrow> url_response \<Rightarrow> exn + row" where
  "extract_row env render_javascript url_response =
     (case (if render_javascript then render_one (arender_task env) url_response
            else Inr url_response) of
        Inl e \<Rightarrow> Inl e
      | Inr rendered \<Rightarrow>
          (case parse_response env rendered of
             Inl e \<Rightarrow> Inl e
           | Inr t \<Rightarrow> Inr (row.truncate t)))"

section \<open>Properties of the response filter\<close>

lemma response_valid_HTMLResponse:
  "response_valid (Some (HTMLResponse r)) content_type u =
     Inr (Some (if 10000000 < length (content r) \<or> unreadable content_type
                   \<or> \<not> ok (HTMLResponse r)
                then Response (status_code r) else HTMLResponse r))"
  by (simp add: response_valid_def discard_test_def)

lemma response_valid_None:
  "response_valid None content_type u =
     (if unreadable content_type then Inl AttributeError else Inr None)"
  by (simp add: response_valid_def discard_test_def)

lemma response_valid_Response:
  "response_valid (Some (Response sc)) content_type u = Inl TypeError"
  by (simp add: response_valid_def discard_test_def)

lemma unreadable_iff:
  "unreadable content_type \<longleftrightarrow>
     (\<exists>ct. content_type = Some ct \<and>
        (\<exists>t \<in> set [''pdf'', ''excel'', ''msword'', ''image'', ''rtf'', ''zip'', ''octet'',
                      ''csv'', ''json'']. py_in t ct))"
  by (cases content_type) (simp_all add: unreadable_def filtered_types_def list_ex_iff)

lemma ok_iff: "ok r \<longleftrightarrow> status_code_of r < 400 \<or> 600 \<le> status_code_of r"
  by (auto simp: ok_def)

text \<open>
  C3. The discard rule as the code has it. A response that the session returned is
  discarded exactly when its body is longer than 10,000,000 bytes, or a content type is
  given and contains one of pdf, excel, msword, image, rtf, zip, octet, csv, json, or its
  status is a client or server error code, 400 to 599 (\<open>response.ok\<close> is false). The
  comment above the test announces the third rule as \<open>the response code from the website
  is not in the 200s\<close>; the test is narrower, and a response whose status is outside the
  200s without being an error code (100, 304, 999) is kept when the other two rules do not
  discard it. The discarded response is a bare \<open>Response\<close> with the original status code
  and no body, header or markup; otherwise the response comes back as it was.
\<close>

theorem response_valid_discards_exactly:
  "\<exists>res. response_valid (Some (HTMLResponse r)) content_type u = Inr (Some res) \<and>
     (if 10000000 < length (content r)
         \<or> (\<exists>ct. content_type = Some ct \<and>
               (\<exists>t \<in> set [''pdf'', ''excel'', ''msword'', ''image'', ''rtf'', ''zip'', ''octet'',
                             ''csv'', ''json'']. py_in t ct))
         \<or> (400 \<le> status_code r \<and> status_code r < 600)
      then res = Response (status_code r) \<and> status_code_of res = status_code r \<and>
           content_of res = None \<and> headers_of res = [] \<and> html_of res = None
      else res = HTMLResponse r) \<and>
     (length (content r) \<le> 10000000 \<and> content_type = None \<and>
      \<not> (200 \<le> status_code r \<and> status_code r < 300) \<and>
      (status_code r < 400 \<or> 600 \<le> status_code r) \<longrightarrow> res = HTMLResponse r)"
  unfolding response_valid_HTMLResponse unreadable_iff [symmetric]
  by (auto simp: ok_def unreadable_def)

theorem response_valid_discards_exactly_witness:
  "response_valid
     (Some (HTMLResponse \<lparr>status_code = 200, content = replicate 10000001 (CHR ''x''),
        headers = [(''content-type'', ''text/html'')], html = ''<html></html>''\<rparr>))
     (Some ''text/html'') (Some ''https://example.com'') = Inr (Some (Response 200)) \<and>
   response_valid
     (Some (HTMLResponse \<lparr>status_code = 200, content = ''%PDF'',
        headers = [(''content-type'', ''application/pdf'')], html = ''%PDF''\<rparr>))
     (Some ''application/pdf'') (Some ''https://example.com/a.pdf'') = Inr (Some (Response 200)) \<and>
   response_valid
     (Some (HTMLResponse \<lparr>status_code = 404, content = ''gone'',
        headers = [], html = ''gone''\<rparr>))
     None (Some ''https://example.com/x'') = Inr (Some (Response 404)) \<and>
   response_valid
     (Some (HTMLResponse \<lparr>status_code = 200, content = ''<html></html>'',
        headers = [(''content-type'', ''text/html'')], html = ''<html></html>''\<rparr>))
     (Some ''text/html'') (Some ''https://example.com'') =
       Inr (Some (HTMLResponse \<lparr>status_code = 200, content = ''<html></html>'',
         headers = [(''content-type'', ''text/html'')], html = ''<html></html>''\<rparr>)) \<and>
   response_valid
     (Some (HTMLResponse \<lparr>status_code = 999, content = ''denied'',
        headers = [], html = ''denied''\<rparr>))
     None (Some ''https://example.com/in'') =
       Inr (Some (HTMLResponse \<lparr>status_code = 999, content = ''denied'',
         headers = [], html = ''denied''\<rparr>))"
proof (intro conjI)
  let ?big = "\<lparr>status_code = 200, content = replicate 10000001 (CHR ''x''),
        headers = [(''content-type'', ''text/html'')], html = ''<html></html>''\<rparr>"
  let ?pdf = "\<lparr>status_code = 200, content = ''%PDF'',
        headers = [(''content-type'', ''application/pdf'')], html = ''%PDF''\<rparr>"
  let ?gone = "\<lparr>status_code = 404, content = ''gone'', headers = [], html = ''gone''\<rparr>"
  let ?page = "\<lparr>status_code = 200, content = ''<html></html>'',
        headers = [(''content-type'', ''text/html'')], html = ''<html></html>''\<rparr>"
  let ?denied = "\<lparr>status_code = 999, content = ''denied'', headers = [],
        html = ''denied''\<rparr>"
  show "response_valid (Some (HTMLResponse ?big)) (Some ''text/html'')
      (Some ''https://example.com'') = Inr (Some (Response 200))"
    using response_valid_discards_exactly
      [of ?big "Some ''text/html''" "Some ''https://example.com''"]
    by simp
  show "response_valid (Some (HTMLResponse ?pdf)) (Some ''application/pdf'')
      (Some ''https://example.com/a.pdf'') = Inr (Some (Response 200))"
    using response_valid_discards_exactly
      [of ?pdf "Some ''application/pdf''" "Some ''https://example.com/a.pdf''"]
    by (simp add: startswith_def)
  show "response_valid (Some (HTMLResponse ?gone)) None
      (Some ''https://example.com/x'') = Inr (Some (Response 404))"
    using response_valid_discards_exactly [of ?gone None "Some ''https://example.com/x''"]
    by simp
  show "response_valid (Some (HTMLResponse ?page)) (Some ''text/html'')
      (Some ''https://example.com'') = Inr (Some (HTMLResponse ?page))"
    using response_valid_discards_exactly
      [of ?page "Some ''text/html''" "Some ''https://example.com''"]
    by (simp add: startswith_def)
  show "response_valid (Some (HTMLResponse ?denied)) None
      (Some ''https://example.com/in'') = Inr (Some (HTMLResponse ?denied))"
    using response_valid_discards_exactly [of ?denied None "Some ''https://example.com/in''"]
    by simp
qed

theorem response_valid_keeps_status_counterexample:
  "\<not> (200 \<le> (304 :: int) \<and> (304 :: int) < 300) \<and>
   response_valid
     (Some (HTMLResponse \<lparr>status_code = 304, content = [],
        headers = [(''content-type'', ''text/html'')], html = []\<rparr>))
     (Some ''text/html'') (Some ''https://example.com'') =
       Inr (Some (HTMLResponse \<lparr>status_code = 304, content = [],
         headers = [(''content-type'', ''text/html'')], html = []\<rparr>))"
  by (simp add: response_valid_HTMLResponse ok_def unreadable_def filtered_types_def
      startswith_def)




text \<open>
  C7, as the code has it. A discarded response keeps the original status code and has no
  payload: its content is \<open>None\<close>. The size rule of the filter takes \<open>len\<close> of the
  content first, so a second application does not return the reduced response: it raises
  \<open>TypeError\<close>, whatever the content type.
\<close>

theorem response_valid_twice:
  assumes "response_valid (Some (HTMLResponse r)) content_type u = Inr (Some res)"
    and "res \<noteq> HTMLResponse r"
  shows "status_code_of res = status_code r \<and> content_of res = None \<and>
         response_valid (Some res) content_type' u' = Inl TypeError"
proof -
  from assms have "res = Response (status_code r)"
    by (simp add: response_valid_HTMLResponse split: if_splits)
  then show ?thesis
    by (simp add: response_valid_Response)
qed

theorem response_valid_twice_witness:
  "response_valid
     (Some (HTMLResponse \<lparr>status_code = 404, content = ''gone'', headers = [],
        html = ''gone''\<rparr>)) None None = Inr (Some (Response 404)) \<and>
   status_code_of (Response 404) = 404 \<and> content_of (Response 404) = None \<and>
   response_valid (Some (Response 404)) (Some ''text/html'') None = Inl TypeError"
proof -
  let ?r = "\<lparr>status_code = 404, content = ''gone'', headers = [], html = ''gone''\<rparr>"
  have a: "response_valid (Some (HTMLResponse ?r)) None None = Inr (Some (Response 404))"
    by (simp add: response_valid_HTMLResponse ok_def unreadable_def)
  have b: "Response 404 \<noteq> HTMLResponse ?r"
    by simp
  show ?thesis
    using response_valid_twice [OF a b, of "Some ''text/html''" None] a by simp
qed

theorem response_valid_twice_counterexample:
  "response_valid
     (Some (HTMLResponse \<lparr>status_code = 404, content = ''gone'', headers = [],
        html = ''gone''\<rparr>)) None None = Inr (Some (Response 404)) \<and>
   response_valid (Some (Response 404)) None None \<noteq> Inr (Some (Response 404))"
  by (simp add: response_valid_HTMLResponse response_valid_Response ok_def unreadable_def)

section \<open>Properties of the fetch engine\<close>

lemma try_map_all:
  assumes "\<And>x. x \<in> set xs \<Longrightarrow> f x = Inr (g x)"
  shows "try_map f xs = Inr (map g xs)"
  using assms by (induction xs) simp_all

lemma get_response_fetched:
  "get_response session u i = Inr \<lparr>d_index = i, d_response = fetched session u\<rparr>"
proof -
  obtain u' resp x
    where t: "try_get session (map_option (\<lambda>s. removesuffix s ''.json'') u) = (u', resp, x)"
    using prod_cases3 by blast
  show ?thesis
  proof (cases resp)
    case None
    with t show ?thesis
      by (simp add: fetched_def get_response_def response_valid_None unreadable_def)
  next
    case (Some r)
    with t show ?thesis
      by (simp add: fetched_def get_response_def response_valid_HTMLResponse)
  qed
qed

lemma tasks_results:
  "try_map (\<lambda>(i, u). get_response session u i) (enumerate n urls) =
     Inr (map (\<lambda>(i, u). \<lparr>d_index = i, d_response = fetched session u\<rparr>) (enumerate n urls))"
  by (rule try_map_all) (auto simp: get_response_fetched)

lemma map_d_index_enumerate:
  "map d_index (map (\<lambda>(i, u). \<lparr>d_index = i, d_response = f u\<rparr>) (enumerate n urls)) = [n..<n + length urls]"
  by (induction urls arbitrary: n) (simp_all add: upt_rec)

text \<open>
  C1. Whatever the session does on each attempt (return a response or raise, also in the
  retry that runs inside an \<open>except\<close> clause) and in whatever order the results are
  listed, \<open>run_get_response\<close> returns, with exactly one outcome per input u: as many
  outcomes as urls, no index twice, the indices are those of \<open>[0, N)\<close>, and the outcome
  with index \<open>i\<close> is the one \<open>get_response\<close> computes for the \<open>i\<close>-th u.
\<close>

theorem run_get_response_total:
  assumes "\<And>rs. mset (gather_order rs) = mset rs"
  shows "\<exists>results. run_get_response gather_order session urls = Inr results \<and>
     length results = length urls \<and>
     distinct (map d_index results) \<and>
     set (map d_index results) = {0..<length urls} \<and>
     (\<forall>r \<in> set results. get_response session (urls ! d_index r) (d_index r) = Inr r)"
proof -
  let ?rs = "map (\<lambda>(i, u). \<lparr>d_index = i, d_response = fetched session u\<rparr>) (enumerate 0 urls)"
  have run: "run_get_response gather_order session urls = Inr (gather_order ?rs)"
    by (simp add: run_get_response_def tasks_results)
  have m: "mset (gather_order ?rs) = mset ?rs"
    by (rule assms)
  have len: "length (gather_order ?rs) = length urls"
    using mset_eq_length [OF m] by simp
  have "mset (map d_index (gather_order ?rs)) = mset (map d_index ?rs)"
    unfolding mset_map m ..
  then have mi: "mset (map d_index (gather_order ?rs)) = mset [0..<length urls]"
    by (simp only: map_d_index_enumerate) simp
  have dist: "distinct (map d_index (gather_order ?rs))"
    using mset_eq_imp_distinct_iff [OF mi] by simp
  have st: "set (map d_index (gather_order ?rs)) = {0..<length urls}"
    using mset_eq_setD [OF mi] by simp
  have each: "get_response session (urls ! d_index r) (d_index r) = Inr r"
    if "r \<in> set (gather_order ?rs)" for r
  proof -
    from that have "r \<in> set ?rs"
      using mset_eq_setD [OF m] by simp
    then obtain i where "i < length urls"
      and "r = \<lparr>d_index = i, d_response = fetched session (urls ! i)\<rparr>"
      by (auto simp: in_set_enumerate_eq)
    then show ?thesis
      by (simp add: get_response_fetched)
  qed
  show ?thesis
  proof (intro exI conjI ballI)
    show "run_get_response gather_order session urls = Inr (gather_order ?rs)" by (rule run)
  qed (use len dist st each in simp_all)
qed

theorem run_get_response_total_witness:
  "run_get_response rev
     (\<lambda>u v. if u = Some ''https://ok.example''
            then Inr \<lparr>status_code = 200, content = ''ok'', headers = [], html = ''ok''\<rparr>
            else if v then Inl SSLError else Inl ConnectionError)
     [Some ''https://tls.example'', Some ''https://ok.example'', None] =
   Inr [\<lparr>d_index = 2, d_response = None\<rparr>,
        \<lparr>d_index = 1, d_response = Some (HTMLResponse
           \<lparr>status_code = 200, content = ''ok'', headers = [], html = ''ok''\<rparr>)\<rparr>,
        \<lparr>d_index = 0, d_response = None\<rparr>]"
proof -
  let ?session = "\<lambda>u v. if u = Some ''https://ok.example''
            then Inr \<lparr>status_code = 200, content = ''ok'', headers = [], html = ''ok''\<rparr>
            else if v then Inl SSLError else Inl ConnectionError"
  let ?urls = "[Some ''https://tls.example'', Some ''https://ok.example'', None]"
  have json: "removesuffix ''https://tls.example'' ''.json'' = ''https://tls.example''"
    "removesuffix ''https://ok.example'' ''.json'' = ''https://ok.example''"
    by (simp_all add: removesuffix_def endswith_def)
  have g0: "get_response ?session (Some ''https://tls.example'') i =
      Inr \<lparr>d_index = i, d_response = None\<rparr>" for i
    by (simp add: get_response_def try_get_def json response_valid_None unreadable_def)
  have g1: "get_response ?session (Some ''https://ok.example'') i =
      Inr \<lparr>d_index = i, d_response = Some (HTMLResponse
           \<lparr>status_code = 200, content = ''ok'', headers = [], html = ''ok''\<rparr>)\<rparr>" for i
    by (simp add: get_response_def try_get_def json response_valid_HTMLResponse
        unreadable_def ok_def)
  have g2: "get_response ?session None i = Inr \<lparr>d_index = i, d_response = None\<rparr>" for i
    by (simp add: get_response_def try_get_def is_Exception_def response_valid_None
        unreadable_def)
  have ev: "run_get_response rev ?session ?urls =
      Inr [\<lparr>d_index = 2, d_response = None\<rparr>,
        \<lparr>d_index = 1, d_response = Some (HTMLResponse
           \<lparr>status_code = 200, content = ''ok'', headers = [], html = ''ok''\<rparr>)\<rparr>,
        \<lparr>d_index = 0, d_response = None\<rparr>]"
    by (simp add: run_get_response_def g0 g1 g2 numeral_2_eq_2)
  show ?thesis
    using run_get_response_total [of rev ?session ?urls, OF mset_rev] ev by simp
qed

section \<open>Properties of the feature extractor\<close>

lemma isspace_space: "isspace (CHR '' '')"
  by (simp add: isspace_def)

lemma split_acc_snoc_space: "isspace c \<Longrightarrow> split_acc (s @ [c]) w = split_acc s w"
  by (induction s arbitrary: w) simp_all

lemma split_acc_append:
  "xs \<noteq> [] \<Longrightarrow> isspace (last xs) \<Longrightarrow> split_acc (xs @ ys) w = split_acc xs w @ split_acc ys []"
proof (induction xs arbitrary: w)
  case Nil
  then show ?case by simp
next
  case (Cons c cs)
  show ?case
  proof (cases "cs = []")
    case True
    with Cons.prems show ?thesis by simp
  next
    case False
    with Cons show ?thesis by simp
  qed
qed

lemma split_acc_nonempty: "w \<noteq> [] \<Longrightarrow> Suc 0 \<le> length (split_acc s w)"
  by (induction s arbitrary: w) simp_all

lemma length_split_acc_take: "length (split_acc (take n s) w) \<le> length (split_acc s w)"
proof (induction s arbitrary: n w)
  case Nil
  then show ?case by simp
next
  case (Cons c cs)
  show ?case
  proof (cases n)
    case 0
    have "Suc 0 \<le> length (split_acc (c # cs) w)" if "w \<noteq> []"
      using that by (rule split_acc_nonempty)
    with 0 show ?thesis by (simp del: split_acc.simps(2))
  next
    case (Suc m)
    then show ?thesis using Cons.IH [of m] by simp
  qed
qed

lemma length_split_take: "length (split (take n s)) \<le> length (split s)"
  by (simp add: split_def length_split_acc_take)

lemma appended_snoc: "appended (ts @ [t]) = appended ts @ t @ '' ''"
  by (simp add: appended_def)

lemma appended_last: "appended ts = [] \<or> isspace (last (appended ts))"
  by (induction ts rule: rev_induct) (simp_all add: appended_def isspace_space)

lemma split_append_text:
  assumes "acc = [] \<or> isspace (last acc)"
  shows "split (acc @ t @ '' '') = split acc @ split t"
proof (cases "acc = []")
  case True
  then show ?thesis
    using split_acc_snoc_space [OF isspace_space, of t "[]"] by (simp add: split_def)
next
  case False
  with assms have "isspace (last acc)" by simp
  from split_acc_append [OF False this, of "t @ '' ''" "[]"]
  show ?thesis
    using split_acc_snoc_space [OF isspace_space, of t "[]"] by (simp add: split_def)
qed

lemma split_appended: "split (appended ts) = concat (map split ts)"
proof (induction ts rule: rev_induct)
  case Nil
  then show ?case by (simp add: appended_def split_def)
next
  case (snoc t ts)
  then show ?case
    using split_append_text [OF appended_last, of ts t] by (simp add: appended_snoc)
qed

lemma words_of_snoc: "words_of (ts @ [t]) = words_of ts + length (split t)"
  by (simp add: words_of_def)

lemma div_loop_appended:
  "\<exists>k \<le> length (filter (\<lambda>t. t \<noteq> []) txs).
     div_loop (appended ds) txs = appended (ds @ take k (filter (\<lambda>t. t \<noteq> []) txs)) \<and>
     (words_of ds \<le> MAX_WORDS \<longrightarrow> words_of (ds @ take k (filter (\<lambda>t. t \<noteq> []) txs)) \<le> MAX_WORDS) \<and>
     (k < length (filter (\<lambda>t. t \<noteq> []) txs) \<longrightarrow>
        MAX_WORDS < words_of (ds @ take k (filter (\<lambda>t. t \<noteq> []) txs))
           + length (split (filter (\<lambda>t. t \<noteq> []) txs ! k)))"
proof (induction txs arbitrary: ds)
  case Nil
  then show ?case by simp
next
  case (Cons tx rest)
  let ?ts = "filter (\<lambda>t. t \<noteq> []) rest"
  show ?case
  proof (cases "tx = []")
    case True
    with Cons.IH [of ds] show ?thesis by simp
  next
    case False
    show ?thesis
    proof (cases "words_of ds + length (split tx) \<le> MAX_WORDS")
      case True
      from Cons.IH [of "ds @ [tx]"] obtain k where k: "k \<le> length ?ts"
        "div_loop (appended (ds @ [tx])) rest = appended ((ds @ [tx]) @ take k ?ts)"
        "words_of (ds @ [tx]) \<le> MAX_WORDS \<longrightarrow> words_of ((ds @ [tx]) @ take k ?ts) \<le> MAX_WORDS"
        "k < length ?ts \<longrightarrow> MAX_WORDS < words_of ((ds @ [tx]) @ take k ?ts) + length (split (?ts ! k))"
        by blast
      have step: "div_loop (appended ds) (tx # rest) = div_loop (appended (ds @ [tx])) rest"
        using True False by (simp add: appended_snoc split_appended words_of_def)
      show ?thesis
        apply (rule exI [of _ "Suc k"])
        using k True False step by (simp add: words_of_snoc)
    next
      case nofit: False
      have step: "div_loop (appended ds) (tx # rest) = appended ds"
        using nofit False by (simp add: split_appended words_of_def)
      show ?thesis
        apply (rule exI [of _ 0])
        using nofit False step by simp
    qed
  qed
qed


text \<open>
  C8. The text of a page has at most 5000 characters and at most 500 words, whatever
  the \<open>div\<close> elements hold. Before the cut at 5000 characters it consists of whole
  texts, each followed by a space: those of the first \<open>k\<close> elements that have a text,
  where \<open>k\<close> stops at the first element whose words would take the count past 500
  (or at the end of the page).
\<close>

theorem get_div_text_truncation:
  "length (get_div_text soup) \<le> 5000 \<and>
   length (split (get_div_text soup)) \<le> 500 \<and>
   (let ts = filter (\<lambda>t. t \<noteq> []) (div_elements soup)
    in \<exists>k \<le> length ts.
         get_div_text soup = take 5000 (concat (map (\<lambda>t. t @ '' '') (take k ts))) \<and>
         length (concat (map split (take k ts))) \<le> 500 \<and>
         (k < length ts \<longrightarrow>
            500 < length (concat (map split (take k ts))) + length (split (ts ! k))))"
proof -
  let ?ts = "filter (\<lambda>t. t \<noteq> []) (div_elements soup)"
  from div_loop_appended [of "div_elements soup" "[]"]
  obtain k where k: "k \<le> length ?ts"
    and loop: "div_loop [] (div_elements soup) = appended (take k ?ts)"
    and fits: "words_of (take k ?ts) \<le> MAX_WORDS"
    and stop: "k < length ?ts \<longrightarrow> MAX_WORDS < words_of (take k ?ts) + length (split (?ts ! k))"
    by (auto simp: appended_def words_of_def)
  have dt: "get_div_text soup = take 5000 (appended (take k ?ts))"
    by (simp add: get_div_text_def loop MAX_WORDS_def)
  have chars: "length (get_div_text soup) \<le> 5000"
    by (simp add: dt)
  have "length (split (get_div_text soup)) \<le> length (split (appended (take k ?ts)))"
    unfolding dt by (rule length_split_take)
  also have "\<dots> = words_of (take k ?ts)"
    by (simp add: split_appended words_of_def)
  finally have words: "length (split (get_div_text soup)) \<le> 500"
    using fits by (simp add: MAX_WORDS_def)
  have "\<exists>k \<le> length ?ts.
         get_div_text soup = take 5000 (concat (map (\<lambda>t. t @ '' '') (take k ?ts))) \<and>
         length (concat (map split (take k ?ts))) \<le> 500 \<and>
         (k < length ?ts \<longrightarrow>
            500 < length (concat (map split (take k ?ts))) + length (split (?ts ! k)))"
    using k dt fits stop unfolding appended_def words_of_def MAX_WORDS_def by blast
  with chars words show ?thesis
    by (simp add: Let_def)
qed

lemma split_acc_replicate:
  "\<not> isspace c \<Longrightarrow>
     split_acc (replicate n c) w = (if w = [] \<and> n = 0 then [] else [w @ replicate n c])"
proof (induction n arbitrary: w)
  case 0
  then show ?case by simp
next
  case (Suc n)
  then show ?case by (simp add: replicate_app_Cons_same)
qed

lemma split_acc_w_words:
  "split_acc (concat (replicate n ''w '') @ s) [] = replicate n ''w'' @ split_acc s []"
  by (induction n) (simp_all add: isspace_def)

lemma length_concat_replicate: "length (concat (replicate n xs)) = n * length xs"
  by (induction n) simp_all

theorem get_div_text_truncation_witness:
  "get_div_text \<lparr>title_string = None, description_meta = None, header_elements = (\<lambda>tag. []),
      div_elements = [''a b'', [], ''c'']\<rparr> = ''a b c '' \<and>
   get_div_text \<lparr>title_string = None, description_meta = None, header_elements = (\<lambda>tag. []),
      div_elements = [replicate 50000 (CHR ''w'')]\<rparr> = replicate 5000 (CHR ''w'') \<and>
   length (split (replicate 5000 (CHR ''w''))) = 1 \<and>
   length (split (concat (replicate 499 ''w '') @ ''w'')) = 500 \<and>
   get_div_text \<lparr>title_string = None, description_meta = None, header_elements = (\<lambda>tag. []),
      div_elements = [concat (replicate 499 ''w '') @ ''w'', ''x'', ''y'']\<rparr>
     = concat (replicate 499 ''w '') @ ''w ''"
proof -
  let ?small = "\<lparr>title_string = None, description_meta = None, header_elements = (\<lambda>tag. []),
      div_elements = [''a b'', [], ''c'']\<rparr>"
  let ?big = "\<lparr>title_string = None, description_meta = None, header_elements = (\<lambda>tag. []),
      div_elements = [replicate 50000 (CHR ''w'')]\<rparr>"
  let ?full = "\<lparr>title_string = None, description_meta = None, header_elements = (\<lambda>tag. []),
      div_elements = [concat (replicate 499 ''w '') @ ''w'', ''x'', ''y'']\<rparr>"
  have w: "\<not> isspace (CHR ''w'')"
    by (simp add: isspace_def)
  have small: "get_div_text ?small = ''a b c ''"
    by (simp add: get_div_text_def split_def isspace_def MAX_WORDS_def)
  have big: "get_div_text ?big = replicate 5000 (CHR ''w'')"
    by (simp add: get_div_text_def split_def split_acc_replicate [OF w] MAX_WORDS_def)
  have one: "length (split (replicate 5000 (CHR ''w''))) = 1"
    by (simp add: split_def split_acc_replicate [OF w])
  have w500: "split (concat (replicate 499 ''w '') @ ''w'') = replicate 499 ''w'' @ [''w'']"
    by (simp add: split_def split_acc_w_words isspace_def)
  have w500': "split (concat (replicate 499 ''w '') @ ''w '') = replicate 499 ''w'' @ [''w'']"
    by (simp add: split_def split_acc_w_words isspace_def)
  have full: "get_div_text ?full = concat (replicate 499 ''w '') @ ''w ''"
    by (simp add: get_div_text_def w500 w500' MAX_WORDS_def length_concat_replicate)
      (simp add: split_def isspace_def)
  show ?thesis
    using get_div_text_truncation [of ?small] get_div_text_truncation [of ?big]
      get_div_text_truncation [of ?full] small big one w500 full
    by simp
qed

section \<open>Properties of the url of a record\<close>

lemma get_url_Some:
  "get_url \<lparr>d_index = i, d_response = r, d_url = Some u\<rparr> =
     (case urlparse_path (if startswith u ''http'' then u else ''https://'' @ u) of
        Inl e \<Rightarrow> Inl e
      | Inr path \<Rightarrow> Inr (u, strip_slash (drop 1 path)))"
  by (simp add: get_url_def strip_slash_def Let_def split: sum.splits)

lemma split_scheme_https: "split_scheme (''https://'' @ rest) = (''https'', ''//'' @ rest)"
  by (simp add: split_scheme_def isascii_isalpha_def scheme_char_def lower_def Let_def)

lemma split_scheme_http: "split_scheme (''http://'' @ rest) = (''http'', ''//'' @ rest)"
  by (simp add: split_scheme_def isascii_isalpha_def scheme_char_def lower_def Let_def)

lemma split_netloc_host:
  assumes "set host \<inter> set ''/?#'' = {}"
  shows "split_netloc (''//'' @ host @ ''/'' @ p) = (host, ''/'' @ p)"
proof -
  have "\<And>c. c \<in> set host \<Longrightarrow> c \<notin> set ''/?#''"
    using assms by blast
  then have "takeWhile (\<lambda>c. c \<notin> set ''/?#'') (host @ ''/'' @ p) = host"
    and "dropWhile (\<lambda>c. c \<notin> set ''/?#'') (host @ ''/'' @ p) = ''/'' @ p"
    by (simp_all add: takeWhile_append2 dropWhile_append2)
  then show ?thesis
    by (simp add: split_netloc_def)
qed

lemma urlparse_path_plain:
  assumes host: "set host \<inter> set ''/?#[]'' = {}"
    and path: "set p \<inter> set ''?#;'' = {}"
    and safe: "\<forall>c \<in> set (host @ p). \<not> unsafe_url_byte c"
    and scheme: "s = ''https://'' \<or> s = ''http://''"
  shows "urlparse_path (s @ host @ ''/'' @ p) = Inr (''/'' @ p)"
proof -
  have h1: "set host \<inter> set ''/?#'' = {}"
    using host by auto
  have f: "filter (\<lambda>c. \<not> unsafe_url_byte c) (host @ ''/'' @ p) = host @ ''/'' @ p"
    using safe by (simp add: unsafe_url_byte_def filter_id_conv)
  have q: "takeWhile (\<lambda>c. c \<noteq> CHR ''#'') p = p" "takeWhile (\<lambda>c. c \<noteq> CHR ''?'') p = p"
    using path by (auto simp: takeWhile_eq_all_conv)
  have semi: "CHR '';'' \<notin> set p"
    using path by auto
  have br: "CHR ''['' \<notin> set host" "CHR '']'' \<notin> set host"
    using host by auto
  from scheme show ?thesis
  proof
    assume s: "s = ''https://''"
    have "filter (\<lambda>c. \<not> unsafe_url_byte c) (dropWhile c0_control_or_space (s @ host @ ''/'' @ p))
        = ''https://'' @ host @ ''/'' @ p"
      using f by (simp add: s c0_control_or_space_def unsafe_url_byte_def)
    then show ?thesis
      using split_scheme_https [of "host @ ''/'' @ p"] split_netloc_host [OF h1, of p] semi br
      by (simp add: urlparse_path_def q)
  next
    assume s: "s = ''http://''"
    have "filter (\<lambda>c. \<not> unsafe_url_byte c) (dropWhile c0_control_or_space (s @ host @ ''/'' @ p))
        = ''http://'' @ host @ ''/'' @ p"
      using f by (simp add: s c0_control_or_space_def unsafe_url_byte_def)
    then show ?thesis
      using split_scheme_http [of "host @ ''/'' @ p"] split_netloc_host [OF h1, of p] semi br
      by (simp add: urlparse_path_def q)
  qed
qed




section \<open>Properties of the render stage\<close>

lemma task_done_earlier: "task_done task t' = None \<Longrightarrow> t \<le> t' \<Longrightarrow> task_done task t = None"
  by (cases task) (auto split: if_splits)

lemma poll_bound: "fst (poll task t) \<le> max (Suc t) 151"
proof (induction task t rule: poll.induct)
  case (1 task time_elapsed)
  show ?case
  proof (cases "task_done task time_elapsed")
    case (Some out)
    then show ?thesis by (subst poll.simps) simp
  next
    case None
    show ?thesis
    proof (cases "time_elapsed + 1 > 150")
      case True
      with None show ?thesis by (subst poll.simps) (simp add: Let_def)
    next
      case False
      with None 1 [of "time_elapsed + 1"] show ?thesis
        by (subst poll.simps) (simp add: Let_def)
    qed
  qed
qed

lemma poll_cancels:
  assumes "task_done task 151 = None"
  shows "t \<le> 150 \<Longrightarrow> poll task t = (151, Inl CancelledError)"
proof (induction "150 - t" arbitrary: t)
  case 0
  then have t: "t = 150" by simp
  have "task_done task 150 = None"
    using task_done_earlier [OF assms, of 150] by simp
  with assms show ?case
    unfolding t by (subst poll.simps) (simp add: Let_def)
next
  case (Suc n)
  then have t: "t < 150" by simp
  have "task_done task t = None"
    using task_done_earlier [OF assms, of t] t by simp
  moreover have "poll task (t + 1) = (151, Inl CancelledError)"
    using Suc.hyps(1) [of "t + 1"] Suc.hyps(2) t by simp
  ultimately show ?case
    using t by (subst poll.simps) (simp add: Let_def)
qed

lemma poll_done:
  "task_done task t = Some out \<Longrightarrow> poll task t = (t, out)"
  by (subst poll.simps) simp

lemma poll_finishes:
  "t \<le> n \<Longrightarrow> n \<le> 151 \<Longrightarrow> poll (Done_after n out) t = (n, out)"
proof (induction "n - t" arbitrary: t)
  case 0
  then show ?case by (simp add: poll_done)
next
  case (Suc k)
  then have t: "t < n" by simp
  then have "poll (Done_after n out) (t + 1) = (n, out)"
    using Suc.hyps(1) [of "t + 1"] Suc.hyps(2) Suc.prems by simp
  then show ?case
    using t Suc.prems by (subst poll.simps) (auto simp: Let_def)
qed

text \<open>
  C5. A render task that never completes, or not within 151 polls, is cancelled by the
  loop when \<open>time_elapsed\<close> first exceeds 150: at the 151st poll, that is 15.1 time
  units of sleep, one polling interval past the 15 of the deadline; no task is polled
  more than 151 times. \<open>await task\<close> then raises \<open>CancelledError\<close>, which the last
  \<open>except\<close> clause swallows, and the outcome keeps the response it had, so that
  \<open>parse_response\<close> reads the markup from before the rendering.
\<close>

theorem render_never_completes:
  assumes "arender r = Never \<or> (\<exists>n out. arender r = Done_after n out \<and> 151 < n)"
    and "ok (HTMLResponse r)"
  shows "poll (arender r) 0 = (151, Inl CancelledError) \<and>
         fst (poll task 0) \<le> 151 \<and>
         (\<exists>rendered. render_one arender \<lparr>d_index = i, d_response = Some (HTMLResponse r), d_url = u\<rparr>
              = Inr rendered \<and>
            rendered = \<lparr>d_index = i, d_response = Some (HTMLResponse r), d_url = u\<rparr> \<and>
            Option.bind (d_response rendered) html_of = Some (html r) \<and>
            parse_response env rendered =
              parse_response env \<lparr>d_index = i, d_response = Some (HTMLResponse r), d_url = u\<rparr>)"
proof -
  from assms(1) have "task_done (arender r) 151 = None"
    by auto
  then have p: "poll (arender r) 0 = (151, Inl CancelledError)"
    by (rule poll_cancels) simp
  have b: "fst (poll task 0) \<le> 151"
    using poll_bound [of task 0] by simp
  have "render_one arender \<lparr>d_index = i, d_response = Some (HTMLResponse r), d_url = u\<rparr>
      = Inr \<lparr>d_index = i, d_response = Some (HTMLResponse r), d_url = u\<rparr>"
    using assms(2) by (simp add: render_one_def p is_Exception_def)
  with p b show ?thesis
    by simp
qed

theorem render_never_completes_witness:
  "poll Never 0 = (151, Inl CancelledError) \<and>
   render_one (\<lambda>r. Never)
     \<lparr>d_index = 0,
      d_response = Some (HTMLResponse \<lparr>status_code = 200, content = ''<p>static</p>'',
        headers = [(''content-type'', ''text/html'')], html = ''<p>static</p>''\<rparr>),
      d_url = Some ''https://example.com''\<rparr> =
   Inr \<lparr>d_index = 0,
      d_response = Some (HTMLResponse \<lparr>status_code = 200, content = ''<p>static</p>'',
        headers = [(''content-type'', ''text/html'')], html = ''<p>static</p>''\<rparr>),
      d_url = Some ''https://example.com''\<rparr> \<and>
   render_one (\<lambda>r. Done_after 151 (Inr ''<p>rendered</p>''))
     \<lparr>d_index = 0,
      d_response = Some (HTMLResponse \<lparr>status_code = 200, content = ''<p>static</p>'',
        headers = [(''content-type'', ''text/html'')], html = ''<p>static</p>''\<rparr>),
      d_url = Some ''https://example.com''\<rparr> =
   Inr \<lparr>d_index = 0,
      d_response = Some (HTMLResponse \<lparr>status_code = 200, content = ''<p>static</p>'',
        headers = [(''content-type'', ''text/html'')], html = ''<p>rendered</p>''\<rparr>),
      d_url = Some ''https://example.com''\<rparr>"
proof -
  let ?r = "\<lparr>status_code = 200, content = ''<p>static</p>'',
        headers = [(''content-type'', ''text/html'')], html = ''<p>static</p>''\<rparr>"
  have a: "(\<lambda>r. Never) ?r = Never \<or>
      (\<exists>n out. (\<lambda>r. Never) ?r = Done_after n out \<and> 151 < n)"
    by simp
  have b: "ok (HTMLResponse ?r)"
    by (simp add: ok_def)
  have c: "poll (Done_after 151 (Inr ''<p>rendered</p>'')) 0 = (151, Inr ''<p>rendered</p>'')"
    by (rule poll_finishes) simp_all
  have d: "render_one (\<lambda>r. Done_after 151 (Inr ''<p>rendered</p>''))
      \<lparr>d_index = 0, d_response = Some (HTMLResponse ?r), d_url = Some ''https://example.com''\<rparr>
    = Inr \<lparr>d_index = 0, d_response = Some (HTMLResponse (?r\<lparr>html := ''<p>rendered</p>''\<rparr>)),
        d_url = Some ''https://example.com''\<rparr>"
    using b by (simp add: render_one_def c)
  show ?thesis
    using render_never_completes [of "\<lambda>r. Never" ?r, OF a b, of Never 0 "Some ''https://example.com''"]
      d
    by simp
qed

section \<open>Properties of the batches\<close>

lemma try_map_nth:
  "length ys = length xs \<Longrightarrow> (\<And>i. i < length xs \<Longrightarrow> f (xs ! i) = Inr (ys ! i)) \<Longrightarrow>
     try_map f xs = Inr ys"
proof (induction xs arbitrary: ys)
  case Nil
  then show ?case by simp
next
  case (Cons x xs)
  then obtain y ys' where ys: "ys = y # ys'"
    by (cases ys) auto
  from Cons.prems(2) [of 0] ys have "f x = Inr y" by simp
  moreover have "try_map f xs = Inr ys'"
  proof (rule Cons.IH)
    show "length ys' = length xs" using Cons.prems(1) ys by simp
    show "f (xs ! i) = Inr (ys' ! i)" if "i < length xs" for i
      using Cons.prems(2) [of "Suc i"] that ys by simp
  qed
  ultimately show ?case using ys by simp
qed

lemma sort_gathered:
  assumes "\<And>rs. mset (gather_order rs) = mset rs"
  shows "sort_key d_index
           (gather_order (map (\<lambda>(i, u). \<lparr>d_index = i, d_response = f u\<rparr>) (enumerate 0 us)))
         = map (\<lambda>(i, u). \<lparr>d_index = i, d_response = f u\<rparr>) (enumerate 0 us)"
proof (rule sort_key_inj_key_eq)
  let ?rs = "map (\<lambda>(i, u). \<lparr>d_index = i, d_response = f u\<rparr>) (enumerate 0 us)"
  show m: "mset (gather_order ?rs) = mset ?rs"
    by (rule assms)
  have d: "map d_index ?rs = [0..<length us]"
    using map_d_index_enumerate [of f 0 us] by simp
  then have "distinct (map d_index ?rs)"
    by simp
  then have "inj_on d_index (set ?rs)"
    by (simp only: distinct_map)
  then show "inj_on d_index (set (gather_order ?rs))"
    using mset_eq_setD [OF m] by simp
  show "sorted (map d_index ?rs)"
    unfolding d by simp
qed

lemma attach_urls:
  assumes "length us = length urls"
  shows "try_map
           (\<lambda>(i, result).
               if i < length urls
               then Inr \<lparr>d_index = d_index result, d_response = d_response result,
                         d_url = urls ! i\<rparr>
               else Inl IndexError)
           (enumerate 0 (map (\<lambda>(i, u). \<lparr>d_index = i, d_response = f u\<rparr>) (enumerate 0 us)))
         = Inr (map (\<lambda>(i, u). \<lparr>d_index = i, d_response = f (us ! i), d_url = u\<rparr>)
                  (enumerate 0 urls))"
  by (rule try_map_nth) (simp_all add: assms nth_enumerate_eq)

lemma process_urls_ordered:
  assumes "\<And>rs. mset (gather env rs) = mset rs"
  shows "process_urls env rj urls =
     (case (if rj then render_js (arender_task env) (map (\<lambda>(i, u). fetched_url env i u) (enumerate 0 urls))
            else Inr (map (\<lambda>(i, u). fetched_url env i u) (enumerate 0 urls))) of
        Inl e \<Rightarrow> Inl e
      | Inr rendered \<Rightarrow>
          (case try_map (parse_response env) rendered of
             Inl e \<Rightarrow> Inl e
           | Inr ts \<Rightarrow> Inr (map row.truncate ts)))"
proof -
  let ?us = "map new_url urls"
  have us: "map (\<lambda>u. case u of None \<Rightarrow> None
      | Some s \<Rightarrow> if \<not> startswith s ''http'' then Some (''https://'' @ s) else Some s) urls = ?us"
    by (simp add: new_url_def [abs_def])
  have run: "run_get_response (gather env) (session_get env) ?us =
      Inr (gather env (map (\<lambda>(i, u). \<lparr>d_index = i, d_response = fetched (session_get env) u\<rparr>)
        (enumerate 0 ?us)))"
    by (simp add: run_get_response_def tasks_results)
  have att: "map (\<lambda>(i, u). \<lparr>d_index = i, d_response = fetched (session_get env) (?us ! i), d_url = u\<rparr>)
      (enumerate 0 urls) = map (\<lambda>(i, u). fetched_url env i u) (enumerate 0 urls)"
    by (rule nth_equalityI) (simp_all add: nth_enumerate_eq fetched_url_def)
  show ?thesis
    unfolding process_urls_def us Let_def run
    by (simp add: sort_gathered [OF assms] attach_urls att)
qed


lemma staged_rows:
  assumes len: "length rows = length xs"
    and each: "\<And>i. i < length xs \<Longrightarrow> extract_row env rj (xs ! i) = Inr (rows ! i)"
  shows "(case (if rj then render_js (arender_task env) xs else Inr xs) of
            Inl e \<Rightarrow> Inl e
          | Inr rendered \<Rightarrow>
              (case try_map (parse_response env) rendered of
                 Inl e \<Rightarrow> Inl e
               | Inr ts \<Rightarrow> Inr (map row.truncate ts))) = Inr rows"
proof -
  let ?step = "\<lambda>x. if rj then render_one (arender_task env) x else Inr x"
  let ?rendered = "map (\<lambda>x. projr (?step x)) xs"
  let ?ts = "map (\<lambda>y. projr (parse_response env y)) ?rendered"
  have one: "?step (xs ! i) = Inr (?rendered ! i) \<and>
      parse_response env (?rendered ! i) = Inr (?ts ! i) \<and>
      row.truncate (?ts ! i) = rows ! i" if "i < length xs" for i
    using each [OF that] that by (auto simp: extract_row_def split: sum.splits if_splits)
  have r: "(if rj then render_js (arender_task env) xs else Inr xs) = Inr ?rendered"
  proof (cases rj)
    case True
    have "try_map (render_one (arender_task env)) xs = Inr ?rendered"
      by (rule try_map_nth) (use one True in auto)
    with True show ?thesis by (simp add: render_js_def)
  next
    case False
    have "?rendered = xs"
      by (rule nth_equalityI) (use False in simp_all)
    with False show ?thesis by simp
  qed
  have p: "try_map (parse_response env) ?rendered = Inr ?ts"
    by (rule try_map_nth) (use one in auto)
  have t: "map row.truncate ?ts = rows"
    by (rule nth_equalityI) (use one len in auto)
  show ?thesis
    unfolding r by (simp only: sum.case p t)
qed

lemma process_urls_rows:
  assumes "\<And>rs. mset (gather env rs) = mset rs"
    and "length rows = length urls"
    and "\<And>i. i < length urls \<Longrightarrow> extract_row env rj (fetched_url env i (urls ! i)) = Inr (rows ! i)"
  shows "process_urls env rj urls = Inr rows"
  unfolding process_urls_ordered [OF assms(1)]
  by (rule staged_rows) (simp_all add: assms nth_enumerate_eq)

lemma render_one_keeps:
  "render_one arender x = Inr y \<Longrightarrow> d_url y = d_url x \<and> d_index y = d_index x"
  by (auto simp: render_one_def split: option.splits response.splits sum.splits if_splits)

lemma parse_response_url:
  "parse_response env x = Inr t \<Longrightarrow> d_url x = Some (url t) \<and> index t = Some (d_index x)"
  by (auto simp: parse_response_def get_url_def Let_def get_header_tags_def
      split: option.splits sum.splits if_splits prod.splits)

lemma extract_row_url:
  assumes "extract_row env rj x = Inr r"
  shows "d_url x = Some (url r)"
proof -
  from assms obtain y t where y: "(if rj then render_one (arender_task env) x else Inr x) = Inr y"
    and t: "parse_response env y = Inr t" and r: "r = row.truncate t"
    by (auto simp: extract_row_def split: sum.splits)
  from y have "d_url y = d_url x"
    by (auto dest: render_one_keeps split: if_splits)
  with parse_response_url [OF t] r show ?thesis
    by (simp add: row.truncate_def)
qed


lemma slice_nat:
  "s \<le> e \<Longrightarrow> e \<le> length xs \<Longrightarrow> slice xs (int s) (int e) = take (e - s) (drop s xs)"
  by (simp add: slice_def Let_def min_def)

lemma batches_cover:
  fixes B :: nat
  assumes "0 < B"
  shows "i < (n + B - 1) div B \<longleftrightarrow> i * B < n"
proof -
  have "i < (n + B - 1) div B \<longleftrightarrow> Suc i \<le> (n + B - 1) div B"
    by auto
  also have "\<dots> \<longleftrightarrow> Suc i * B \<le> n + B - 1"
    using assms by (simp only: less_eq_div_iff_mult_less_eq)
  also have "\<dots> \<longleftrightarrow> i * B < n"
    using assms by auto
  finally show ?thesis .
qed

lemma take_batch:
  assumes "length rows = n"
  shows "take (i * B) rows @ take (min (Suc i * B) n - i * B) (drop (i * B) rows)
           = take (Suc i * B) rows"
proof -
  have "min (Suc i * B) n - i * B = min B (length (drop (i * B) rows))"
    using assms by (simp add: min_def) arith
  then have "take (min (Suc i * B) n - i * B) (drop (i * B) rows) = take B (drop (i * B) rows)"
    by (simp only: take_all_iff min.cobounded2 take_take [symmetric] take_all)
  moreover have "take (i * B + B) rows = take (i * B) rows @ take B (drop (i * B) rows)"
    by (rule take_add)
  moreover have "Suc i * B = i * B + B"
    by simp
  ultimately show ?thesis
    by (simp only:)
qed

lemma collector_main_batch:
  fixes B :: nat
  assumes gather: "\<And>rs. mset (gather env rs) = mset rs"
    and B: "0 < B"
    and len: "length rows = length urls"
    and each: "\<And>k. k < length urls \<Longrightarrow>
        extract_row env rj (fetched_url env (k mod B) (urls ! k)) = Inr (rows ! k)"
    and i: "i * B < length urls"
  shows "process_urls env rj (slice urls (int (i * B)) (int (min (Suc i * B) (length urls))))
           = Inr (slice rows (int (i * B)) (int (min (Suc i * B) (length urls))))"
proof -
  let ?s = "i * B" and ?e = "min (Suc i * B) (length urls)"
  have se: "?s \<le> ?e" "?e \<le> length urls" "?e \<le> length rows"
    using i len by simp_all
  have n: "?e - ?s \<le> B"
    by (simp add: min_def) arith
  show ?thesis
    unfolding slice_nat [OF se(1) se(2)] slice_nat [OF se(1) se(3)]
  proof (rule process_urls_rows [OF gather])
    show "length (take (?e - ?s) (drop ?s rows)) = length (take (?e - ?s) (drop ?s urls))"
      using len by simp
    show "extract_row env rj (fetched_url env j (take (?e - ?s) (drop ?s urls) ! j))
        = Inr (take (?e - ?s) (drop ?s rows) ! j)"
      if "j < length (take (?e - ?s) (drop ?s urls))" for j
    proof -
      from that have j: "j < ?e - ?s" "?s + j < length urls"
        by simp_all
      with n have "(?s + j) mod B = j"
        by simp
      with each [OF j(2)] j len show ?thesis
        by simp
    qed
  qed
qed

lemma batch_loop_rows:
  fixes B :: nat
  assumes gather: "\<And>rs. mset (gather env rs) = mset rs"
    and B: "0 < B"
    and len: "length rows = length urls"
    and each: "\<And>k. k < length urls \<Longrightarrow>
        extract_row env rj (fetched_url env (k mod B) (urls ! k)) = Inr (rows ! k)"
  shows "i0 \<le> (length urls + B - 1) div B \<Longrightarrow>
         batch_loop env (Urls urls) rj (int B)
           (map int [i0..<(length urls + B - 1) div B]) (Features (take (i0 * B) rows))
         = Inr (Features rows)"
proof (induction "(length urls + B - 1) div B - i0" arbitrary: i0)
  case 0
  then have "i0 = (length urls + B - 1) div B"
    by simp
  then have "\<not> i0 * B < length urls"
    using batches_cover [OF B, of i0 "length urls"] by simp
  then show ?case
    using 0 len by simp
next
  case (Suc d)
  then have lt: "i0 < (length urls + B - 1) div B"
    by simp
  then have i: "i0 * B < length urls"
    using batches_cover [OF B, of i0 "length urls"] by simp
  let ?e = "min (Suc i0 * B) (length urls)"
  have "(int i0 + 1) * int B = int (Suc i0 * B)"
    by (simp add: algebra_simps)
  then have bounds: "int i0 * int B = int (i0 * B)"
    "min ((int i0 + 1) * int B) (int (length urls)) = int ?e"
    by (simp_all only: of_nat_min of_nat_mult)
  have se: "i0 * B \<le> ?e" "?e \<le> length rows"
    using i len by simp_all
  have main: "collector_main env (Urls (slice urls (int (i0 * B)) (int ?e))) rj
      = Features (take (?e - i0 * B) (drop (i0 * B) rows))"
    by (simp only: collector_main_def frame_urls.simps
        collector_main_batch [OF gather B len each i] sum.case slice_nat [OF se])
  have next_loop: "batch_loop env (Urls urls) rj (int B)
      (map int [Suc i0..<(length urls + B - 1) div B]) (Features (take (Suc i0 * B) rows))
      = Inr (Features rows)"
    using Suc.hyps(1) [of "Suc i0"] Suc.hyps(2) lt by simp
  have first: "take (?e - i0 * B) (drop (i0 * B) rows) = take (Suc i0 * B) rows" if "i0 = 0"
    using that len by (simp add: min_def)
  let ?rest = "map int [Suc i0..<(length urls + B - 1) div B]"
  let ?h = "Features (take (?e - i0 * B) (drop (i0 * B) rows))"
  have step: "batch_loop env (Urls urls) rj (int B) (int i0 # ?rest) cum =
      (if int i0 = 0 then batch_loop env (Urls urls) rj (int B) ?rest ?h
       else (case concat_vertical cum ?h of
               Inl e \<Rightarrow> Inl e
             | Inr c \<Rightarrow> batch_loop env (Urls urls) rj (int B) ?rest c))" for cum
    by (simp only: batch_loop.simps Let_def len.simps frame_slice.simps bounds main)
  have "batch_loop env (Urls urls) rj (int B) (int i0 # ?rest) (Features (take (i0 * B) rows))
      = Inr (Features rows)"
  proof (cases "i0 = 0")
    case True
    with step [of "Features (take (i0 * B) rows)"] first next_loop show ?thesis
      by (simp only: of_nat_0 if_True simp_thms)
  next
    case False
    then have "int i0 \<noteq> 0" by simp
    with step [of "Features (take (i0 * B) rows)"] take_batch [OF len, of i0 B] next_loop
    show ?thesis
      by (simp only: if_False concat_vertical.simps sum.case simp_thms)
  qed
  then show ?case
    by (simp only: upt_conv_Cons [OF lt] list.map)
qed

lemma num_batches_nat:
  fixes B :: nat
  assumes "0 < B"
  shows "nat ((int n + int B - 1) div int B) = (n + B - 1) div B"
proof -
  have "int n + int B - 1 = int (n + B - 1)"
    using assms by (simp add: of_nat_diff)
  then show ?thesis
    by (simp only: zdiv_int [symmetric] nat_int)
qed

text \<open>
  C2. Suppose the results of a fetch come back in any order, the batch size is positive,
  and for every url the extraction of its outcome, taken alone, yields a row. Then every
  batch's table holds the rows of its urls in the order of the urls (the \<open>i\<close>-th row is
  the one of the \<open>i\<close>-th url of the batch), the cumulative table holds the rows of all
  urls in the order of the input, and the \<open>k\<close>-th row carries the \<open>k\<close>-th url.
\<close>

theorem process_in_batches_order:
  assumes gather: "\<And>rs. mset (gather env rs) = mset rs"
    and size: "0 < batch_size"
    and len: "length rows = length urls"
    and each: "\<And>k. k < length urls \<Longrightarrow>
        extract_row env rj (fetched_url env (k mod nat batch_size) (urls ! k)) = Inr (rows ! k)"
  shows "process_in_batches env (Urls urls) rj batch_size = Inr (Features rows) \<and>
         (\<forall>k < length urls. urls ! k = Some (url (rows ! k))) \<and>
         (\<forall>b. b * nat batch_size < length urls \<longrightarrow>
            process_urls env rj
              (slice urls (int (b * nat batch_size))
                 (int (min (Suc b * nat batch_size) (length urls))))
            = Inr (slice rows (int (b * nat batch_size))
                 (int (min (Suc b * nat batch_size) (length urls)))))"
proof (intro conjI allI impI)
  let ?B = "nat batch_size"
  have B: "0 < ?B" and bs: "batch_size = int ?B"
    using size by simp_all
  have "batch_loop env (Urls urls) rj (int ?B)
      (map int [0..<(length urls + ?B - 1) div ?B]) (Features (take (0 * ?B) rows))
      = Inr (Features rows)"
    by (rule batch_loop_rows [OF gather B len each]) simp_all
  then have "batch_loop env (Urls urls) rj batch_size
      (map int [0..<nat ((len (Urls urls) + batch_size - 1) div batch_size)]) (Features [])
      = Inr (Features rows)"
    using num_batches_nat [OF B, of "length urls"] bs by simp
  then show "process_in_batches env (Urls urls) rj batch_size = Inr (Features rows)"
    using size by (simp add: process_in_batches_def Let_def)
next
  fix k
  assume "k < length urls"
  from extract_row_url [OF each [OF this]]
  show "urls ! k = Some (url (rows ! k))"
    by (simp add: fetched_url_def)
next
  fix b
  assume "b * nat batch_size < length urls"
  with size show "process_urls env rj
      (slice urls (int (b * nat batch_size)) (int (min (Suc b * nat batch_size) (length urls))))
      = Inr (slice rows (int (b * nat batch_size))
          (int (min (Suc b * nat batch_size) (length urls))))"
    by (intro collector_main_batch [OF gather _ len each]) simp_all
qed

theorem process_in_batches_order_witness:
  "process_in_batches
     \<lparr>session_get = (\<lambda>u v. if u = Some ''https://b.example/y''
          then Inr \<lparr>status_code = 200, content = ''<title>B</title>'',
                 headers = [(''content-type'', ''text/html'')], html = ''<title>B</title>''\<rparr>
          else Inl ReadTimeout),
      gather = rev, arender_task = (\<lambda>r. Never), get_title = (\<lambda>u. ''Example''),
      BeautifulSoup = (\<lambda>markup parser. Inr \<lparr>title_string = Some ''B'', description_meta = None,
          header_elements = (\<lambda>tag. []), div_elements = [''hello world'']\<rparr>),
      json_dumps = (\<lambda>texts. ''[]'')\<rparr>
     (Urls [Some ''a.example/x/'', Some ''https://b.example/y'', Some ''c.example/z''])
     False 2 =
   Inr (Features
     [\<lparr>url = ''a.example/x/'', url_path = ''x'', html_title = [], meta_description = [],
        root_page_title = ''Example'', http_response = - 1, h1 = [], h2 = [], h3 = [], h4 = [],
        h5 = [], h6 = [], div_text = []\<rparr>,
      \<lparr>url = ''https://b.example/y'', url_path = ''y'', html_title = ''B'',
        meta_description = [], root_page_title = ''Example'', http_response = 200,
        h1 = ''[]'', h2 = ''[]'', h3 = ''[]'', h4 = ''[]'', h5 = ''[]'', h6 = ''[]'',
        div_text = ''hello world ''\<rparr>,
      \<lparr>url = ''c.example/z'', url_path = ''z'', html_title = [], meta_description = [],
        root_page_title = ''Example'', http_response = - 1, h1 = [], h2 = [], h3 = [], h4 = [],
        h5 = [], h6 = [], div_text = []\<rparr>])"
proof -
  let ?page = "\<lparr>status_code = 200, content = ''<title>B</title>'',
                 headers = [(''content-type'', ''text/html'')], html = ''<title>B</title>''\<rparr>"
  let ?session = "\<lambda>u v. if u = Some ''https://b.example/y''
          then Inr ?page else Inl ReadTimeout"
  let ?env = "\<lparr>session_get = ?session,
      gather = rev, arender_task = (\<lambda>r. Never), get_title = (\<lambda>u. ''Example''),
      BeautifulSoup = (\<lambda>markup parser. Inr \<lparr>title_string = Some ''B'', description_meta = None,
          header_elements = (\<lambda>tag. []), div_elements = [''hello world'']\<rparr>),
      json_dumps = (\<lambda>texts. ''[]'')\<rparr>"
  let ?urls = "[Some ''a.example/x/'', Some ''https://b.example/y'', Some ''c.example/z'']"
  let ?ra = "\<lparr>url = ''a.example/x/'', url_path = ''x'', html_title = [], meta_description = [],
        root_page_title = ''Example'', http_response = - 1, h1 = [], h2 = [], h3 = [], h4 = [],
        h5 = [], h6 = [], div_text = []\<rparr>"
  let ?rb = "\<lparr>url = ''https://b.example/y'', url_path = ''y'', html_title = ''B'',
        meta_description = [], root_page_title = ''Example'', http_response = 200,
        h1 = ''[]'', h2 = ''[]'', h3 = ''[]'', h4 = ''[]'', h5 = ''[]'', h6 = ''[]'',
        div_text = ''hello world ''\<rparr>"
  let ?rc = "\<lparr>url = ''c.example/z'', url_path = ''z'', html_title = [], meta_description = [],
        root_page_title = ''Example'', http_response = - 1, h1 = [], h2 = [], h3 = [], h4 = [],
        h5 = [], h6 = [], div_text = []\<rparr>"
  have fa: "fetched ?session (new_url (Some ''a.example/x/'')) = None"
    by (simp add: fetched_def new_url_def startswith_def get_response_def try_get_def
        removesuffix_def endswith_def response_valid_None unreadable_def)
  have fb: "fetched ?session (new_url (Some ''https://b.example/y''))
      = Some (HTMLResponse ?page)"
    by (simp add: fetched_def new_url_def startswith_def get_response_def try_get_def
        removesuffix_def endswith_def response_valid_HTMLResponse unreadable_def
        filtered_types_def ok_def)
  have fc: "fetched ?session (new_url (Some ''c.example/z'')) = None"
    by (simp add: fetched_def new_url_def startswith_def get_response_def try_get_def
        removesuffix_def endswith_def response_valid_None unreadable_def)
  have pa: "urlparse_path ''https://a.example/x/'' = Inr ''/x/''"
    using urlparse_path_plain [of "''a.example''" "''x/''" "''https://''"]
    by (simp add: unsafe_url_byte_def)
  have pb: "urlparse_path ''https://b.example/y'' = Inr ''/y''"
    using urlparse_path_plain [of "''b.example''" "''y''" "''https://''"]
    by (simp add: unsafe_url_byte_def)
  have pc: "urlparse_path ''https://c.example/z'' = Inr ''/z''"
    using urlparse_path_plain [of "''c.example''" "''z''" "''https://''"]
    by (simp add: unsafe_url_byte_def)
  have title: "remove_excess_whitespace ''Example'' = ''Example''"
    "remove_excess_whitespace ''B'' = ''B''"
    by (simp_all add: remove_excess_whitespace_def split_def strip_def isspace_def)
  have div: "get_div_text \<lparr>title_string = Some ''B'', description_meta = None,
          header_elements = (\<lambda>tag. []), div_elements = [''hello world'']\<rparr> = ''hello world ''"
    by (simp add: get_div_text_def split_def isspace_def MAX_WORDS_def)
  have ea: "extract_row ?env False (fetched_url ?env i (Some ''a.example/x/'')) = Inr ?ra" for i
    by (simp add: extract_row_def fetched_url_def fa parse_response_def get_url_Some pa
        startswith_def strip_slash_def Tags_def verify_response_def title row.truncate_def)
  have eb: "extract_row ?env False (fetched_url ?env i (Some ''https://b.example/y'')) = Inr ?rb"
    for i
    by (simp add: extract_row_def fetched_url_def fb parse_response_def get_url_Some pb
        startswith_def strip_slash_def Tags_def verify_response_def title row.truncate_def
        ok_def get_parser_def get_html_title_def get_meta_description_def get_header_tags_def
        header_content_def div)
  have ec: "extract_row ?env False (fetched_url ?env i (Some ''c.example/z'')) = Inr ?rc" for i
    by (simp add: extract_row_def fetched_url_def fc parse_response_def get_url_Some pc
        startswith_def strip_slash_def Tags_def verify_response_def title row.truncate_def)
  have each: "extract_row ?env False (fetched_url ?env (k mod nat 2) (?urls ! k))
      = Inr ([?ra, ?rb, ?rc] ! k)" if "k < length ?urls" for k
  proof -
    from that consider "k = 0" | "k = 1" | "k = 2"
      by fastforce
    then show ?thesis
      by cases (simp_all only: nth_Cons_0 nth_Cons_Suc One_nat_def numeral_2_eq_2 ea eb ec)
  qed
  have g: "mset (gather ?env rs) = mset rs" for rs
    by simp
  have l: "length [?ra, ?rb, ?rc] = length ?urls"
    by simp
  from process_in_batches_order [of ?env 2 "[?ra, ?rb, ?rc]" ?urls False, OF g _ l each]
  show ?thesis
    by simp
qed

lemma try_map_Inr:
  "try_map f xs = Inr ys \<Longrightarrow>
     length ys = length xs \<and> (\<forall>i < length xs. f (xs ! i) = Inr (ys ! i))"
proof (induction xs arbitrary: ys)
  case Nil
  then show ?case by simp
next
  case (Cons x xs)
  then obtain y ys' where "f x = Inr y" "try_map f xs = Inr ys'" "ys = y # ys'"
    by (auto split: sum.splits)
  with Cons.IH [of ys'] show ?case
    by (auto simp: nth_Cons split: nat.splits)
qed

text \<open>
  A url that is \<open>None\<close> anywhere in a batch ends \<open>process_urls\<close> with an exception,
  whatever the other urls are; \<open>collector_main\<close> then hands back the table it was given.
\<close>

lemma process_urls_url_None:
  assumes gather: "\<And>rs. mset (gather env rs) = mset rs"
    and none: "None \<in> set urls"
  shows "\<exists>e. process_urls env rj urls = Inl e"
proof (rule ccontr)
  assume "\<not> (\<exists>e. process_urls env rj urls = Inl e)"
  then obtain rows where rows: "process_urls env rj urls = Inr rows"
    by (cases "process_urls env rj urls") auto
  let ?fetched = "map (\<lambda>(i, u). fetched_url env i u) (enumerate 0 urls)"
  from rows obtain rendered ts
    where r: "(if rj then render_js (arender_task env) ?fetched else Inr ?fetched) = Inr rendered"
      and p: "try_map (parse_response env) rendered = Inr ts"
    unfolding process_urls_ordered [OF gather] by (auto split: sum.splits)
  from none obtain k where k: "k < length urls" "urls ! k = None"
    by (auto simp: in_set_conv_nth)
  have len: "length rendered = length urls"
    and url: "d_url (rendered ! k) = None"
  proof -
    show "length rendered = length urls"
      using r try_map_Inr [of "render_one (arender_task env)" ?fetched rendered]
      by (auto simp: render_js_def split: if_splits)
    show "d_url (rendered ! k) = None"
    proof (cases rj)
      case True
      with r have "render_one (arender_task env) (?fetched ! k) = Inr (rendered ! k)"
        using try_map_Inr [of "render_one (arender_task env)" ?fetched rendered] k
        by (simp add: render_js_def)
      from render_one_keeps [OF this] k show ?thesis
        by (simp add: nth_enumerate_eq fetched_url_def)
    next
      case False
      with r k show ?thesis
        by (auto simp: nth_enumerate_eq fetched_url_def)
    qed
  qed
  from try_map_Inr [OF p] len k have "parse_response env (rendered ! k) = Inr (ts ! k)"
    by simp
  from parse_response_url [OF this] url show False
    by simp
qed

lemma collector_main_url_None:
  assumes "\<And>rs. mset (gather env rs) = mset rs"
    and "None \<in> set urls"
  shows "collector_main env (Urls urls) rj = Urls urls"
  using process_urls_url_None [OF assms, of rj] by (auto simp: collector_main_def)

text \<open>
  C6. A row whose url is \<open>None\<close> makes \<open>get_url\<close> call \<open>startswith\<close> on \<open>None\<close>;
  nothing in \<open>parse_response\<close> catches the \<open>AttributeError\<close>, whatever the response is.
  The exception ends \<open>process_urls\<close> for the whole batch, and \<open>collector_main\<close> returns
  the input table of the batch instead of a table of records.
\<close>

theorem parse_response_url_None:
  "parse_response env \<lparr>d_index = i, d_response = r, d_url = None\<rparr> = Inl AttributeError \<and>
   ((\<forall>rs. mset (gather env rs) = mset rs) \<and> None \<in> set urls \<longrightarrow>
      (\<exists>e. process_urls env rj urls = Inl e) \<and>
      collector_main env (Urls urls) rj = Urls urls)"
proof (intro conjI impI)
  show "parse_response env \<lparr>d_index = i, d_response = r, d_url = None\<rparr> = Inl AttributeError"
    by (simp add: parse_response_def get_url_def)
next
  assume a: "(\<forall>rs. mset (gather env rs) = mset rs) \<and> None \<in> set urls"
  then show "\<exists>e. process_urls env rj urls = Inl e"
    by (intro process_urls_url_None) simp_all
  from a show "collector_main env (Urls urls) rj = Urls urls"
    by (intro collector_main_url_None) simp_all
qed

theorem parse_response_url_None_witness:
  "parse_response
     \<lparr>session_get = (\<lambda>u v. Inl ReadTimeout), gather = rev, arender_task = (\<lambda>r. Never),
      get_title = (\<lambda>u. ''Example''), BeautifulSoup = (\<lambda>markup parser. Inl ParserRejectedMarkup),
      json_dumps = (\<lambda>texts. ''[]'')\<rparr>
     \<lparr>d_index = 1, d_response = None, d_url = None\<rparr> = Inl AttributeError \<and>
   collector_main
     \<lparr>session_get = (\<lambda>u v. Inl ReadTimeout), gather = rev, arender_task = (\<lambda>r. Never),
      get_title = (\<lambda>u. ''Example''), BeautifulSoup = (\<lambda>markup parser. Inl ParserRejectedMarkup),
      json_dumps = (\<lambda>texts. ''[]'')\<rparr>
     (Urls [Some ''a.example/x'', None]) False = Urls [Some ''a.example/x'', None]"
proof -
  let ?env = "\<lparr>session_get = (\<lambda>u v. Inl ReadTimeout), gather = rev, arender_task = (\<lambda>r. Never),
      get_title = (\<lambda>u. ''Example''), BeautifulSoup = (\<lambda>markup parser. Inl ParserRejectedMarkup),
      json_dumps = (\<lambda>texts. ''[]'')\<rparr>"
  have g: "\<forall>rs. mset (gather ?env rs) = mset rs"
    by simp
  have n: "None \<in> set [Some ''a.example/x'', None]"
    by simp
  from parse_response_url_None [of ?env 1 None "[Some ''a.example/x'', None]" False] g n
  show ?thesis
    by blast
qed

section \<open>Properties of the crawler\<close>













end
